theory Spec2Isabelle
  imports Main
begin

section \<open>Text\<close>

text \<open>
  A JavaScript string is a sequence of UTF-16 code units; a code unit is modelled as a
  natural number.  \<open>js\<close> embeds an ASCII literal.
\<close>

type_synonym jsstring = "nat list"

definition js :: "string \<Rightarrow> jsstring" where
  "js s = map of_char s"

text \<open>
  \<open>String.prototype.trim\<close> removes WhiteSpace and LineTerminator code points from both
  ends: TAB, LF, VT, FF, CR, SP, NBSP, the Unicode space separators, LS, PS and the
  byte-order mark.
\<close>

definition is_ws :: "nat \<Rightarrow> bool" where
  "is_ws c = (c \<in> {0x9, 0xA, 0xB, 0xC, 0xD, 0x20, 0xA0, 0x1680, 0x2028, 0x2029,
                     0x202F, 0x205F, 0x3000, 0xFEFF} \<or> (0x2000 \<le> c \<and> c \<le> 0x200A))"

definition trim :: "jsstring \<Rightarrow> jsstring" where
  "trim s = rev (dropWhile is_ws (rev (dropWhile is_ws s)))"

section \<open>Data model\<close>

record BasketballRegistration =
  polideportivo :: jsstring
  categoria :: jsstring
  actividad :: jsstring
  subcategoria :: jsstring
  horario :: jsstring

section \<open>The result page\<close>

text \<open>
  The page is a document: its mode (quirks mode or not, which the parser fixes from the
  doctype) and its tree of elements (local name, in lower case as the parser gives it
  to the elements of a web page; \<open>id\<close> attribute, empty when there is none; children)
  and text nodes.
\<close>

datatype node = Element string string "node list" | Text jsstring

record document =
  quirks :: bool
  documentElement :: node

fun children_of :: "node \<Rightarrow> node list" where
  "children_of (Element t i ks) = ks"
| "children_of (Text s) = []"

fun textContent :: "node \<Rightarrow> jsstring" where
  "textContent (Text s) = s"
| "textContent (Element t i ks) = concat (map textContent ks)"

definition RESULTS_ID :: string where
  "RESULTS_ID = ''MainContent_gvBuscarActXCat''"

text \<open>
  An ID selector matches the \<open>id\<close> of an element exactly and, in a quirks-mode document,
  up to the case of the ASCII letters.
\<close>

definition ascii_lower :: "char \<Rightarrow> nat" where
  "ascii_lower c =
     (if 65 \<le> (of_char c :: nat) \<and> (of_char c :: nat) \<le> 90 then of_char c + 32 else of_char c)"

definition id_matches :: "bool \<Rightarrow> string \<Rightarrow> string \<Rightarrow> bool" where
  "id_matches q sel i = (if q then map ascii_lower i = map ascii_lower sel else i = sel)"

text \<open>
  \<open>querySelectorAll('#MainContent_gvBuscarActXCat tr:not(:first-child)')\<close>, in document
  order, over a list of siblings of a document whose mode is \<open>q\<close>: \<open>anc\<close> says that an
  ancestor carries the id, \<open>first\<close> that no element precedes the list among its siblings
  (text nodes do not count for \<open>:first-child\<close>).
\<close>

fun select_rows :: "bool \<Rightarrow> bool \<Rightarrow> bool \<Rightarrow> node list \<Rightarrow> node list" where
  "select_rows q anc first [] = []"
| "select_rows q anc first (Text s # ns) = select_rows q anc first ns"
| "select_rows q anc first (Element t i ks # ns) =
     (if anc \<and> t = ''tr'' \<and> \<not> first then [Element t i ks] else [])
     @ select_rows q (anc \<or> id_matches q RESULTS_ID i) True ks
     @ select_rows q anc False ns"

text \<open>\<open>row.querySelectorAll('td')\<close>: the \<open>td\<close> descendants of a row, in document order.\<close>

fun select_td :: "node list \<Rightarrow> node list" where
  "select_td [] = []"
| "select_td (Text s # ns) = select_td ns"
| "select_td (Element t i ks # ns) =
     (if t = ''td'' then [Element t i ks] else []) @ select_td ks @ select_td ns"

text \<open>\<open>cols[k]?.textContent?.trim() || ''\<close>\<close>

definition cell :: "node list \<Rightarrow> nat \<Rightarrow> jsstring" where
  "cell cols k = (if k < length cols then trim (textContent (cols ! k)) else [])"

definition extract_row :: "node \<Rightarrow> BasketballRegistration" where
  "extract_row row =
     (let cols = select_td (children_of row)
      in \<lparr>polideportivo = cell cols 1,
          categoria = cell cols 2,
          actividad = cell cols 3,
          subcategoria = cell cols 4,
          horario = cell cols 5\<rparr>)"

text \<open>The function passed to the second \<open>page.evaluate\<close>, applied to the document.\<close>

definition evaluate_rows :: "document \<Rightarrow> BasketballRegistration list" where
  "evaluate_rows doc =
     map extract_row (select_rows (quirks doc) False True [documentElement doc])"

subsection \<open>Tables, as the specification speaks of them\<close>













text \<open>
  The place of the table in the page: \<open>enclose fs n\<close> puts the node \<open>n\<close> inside the
  elements \<open>fs\<close>, the outermost first, each given by its name, its id and the siblings
  to the left and to the right; \<open>outside q fs\<close> says that nothing around \<open>n\<close> carries
  the id of the results table.
\<close>

type_synonym frame = "string \<times> string \<times> node list \<times> node list"

fun enclose :: "frame list \<Rightarrow> node \<Rightarrow> node" where
  "enclose [] n = n"
| "enclose ((t, i, l, r) # fs) n = Element t i (l @ [enclose fs n] @ r)"


section \<open>Constants\<close>

definition BLOB_FILENAME :: string where
  "BLOB_FILENAME = ''basketball-registrations.json''"

definition SCRAPE_INTERVAL_HOURS :: nat where
  "SCRAPE_INTERVAL_HOURS = 6"

definition URL :: jsstring where
  "URL = js ''https://appsb.mardelplata.gob.ar/Consultas/nPolideportivos/Vistas/Inscripciones/InscripcionWeb/InscripcionWeb.aspx''"

section \<open>Values of the language\<close>

text \<open>
  An optional string (an environment variable, the optional \<open>blobUrl\<close>) is truthy when it
  is defined and not empty.  A number in a template literal is printed in decimal.
\<close>

fun truthy :: "jsstring option \<Rightarrow> bool" where
  "truthy None = False"
| "truthy (Some s) = (s \<noteq> [])"

fun string_of :: "jsstring option \<Rightarrow> jsstring" where
  "string_of None = js ''undefined''"
| "string_of (Some s) = s"

fun toString :: "nat \<Rightarrow> jsstring" where
  "toString n = (if n < 10 then [48 + n] else toString (n div 10) @ [48 + n mod 10])"

declare toString.simps [simp del]

text \<open>
  \<open>Date.prototype.toISOString\<close> of a time value (milliseconds since the epoch, not
  negative for a reading of the clock, and at most 8.64e15), with the functions of the
  standard for the day number, the year (the largest year that starts at or before
  the time, found by a search downwards from a year that starts after it), the month
  and the date by the table of the days within a year, and the time of day in UTC.
  The year is printed with four digits up to 9999 and with a sign and six digits
  beyond.
\<close>

fun pad :: "nat \<Rightarrow> nat \<Rightarrow> jsstring" where
  "pad 0 n = []"
| "pad (Suc k) n = pad k (n div 10) @ [48 + n mod 10]"

definition msPerDay :: nat where
  "msPerDay = 86400000"

definition Day :: "nat \<Rightarrow> nat" where
  "Day t = t div msPerDay"

definition DaysInYear :: "nat \<Rightarrow> nat" where
  "DaysInYear y =
     (if y mod 4 \<noteq> 0 then 365
      else if y mod 100 \<noteq> 0 then 366
      else if y mod 400 \<noteq> 0 then 365
      else 366)"

definition DayFromYear :: "nat \<Rightarrow> nat" where
  "DayFromYear y = 365 * (y - 1970) + (y - 1969) div 4 - (y - 1901) div 100 + (y - 1601) div 400"

definition TimeFromYear :: "nat \<Rightarrow> nat" where
  "TimeFromYear y = msPerDay * DayFromYear y"

fun latest_year :: "nat \<Rightarrow> nat \<Rightarrow> nat" where
  "latest_year t y = (if TimeFromYear y \<le> t \<or> y \<le> 1970 then y else latest_year t (y - 1))"

declare latest_year.simps [simp del]

definition YearFromTime :: "nat \<Rightarrow> nat" where
  "YearFromTime t = latest_year t (1970 + Day t div 365)"

definition InLeapYear :: "nat \<Rightarrow> nat" where
  "InLeapYear t = (if DaysInYear (YearFromTime t) = 366 then 1 else 0)"

definition DayWithinYear :: "nat \<Rightarrow> nat" where
  "DayWithinYear t = Day t - DayFromYear (YearFromTime t)"

definition MonthFromTime :: "nat \<Rightarrow> nat" where
  "MonthFromTime t =
     (let d = DayWithinYear t; l = InLeapYear t
      in if d < 31 then 0
         else if d < 59 + l then 1
         else if d < 90 + l then 2
         else if d < 120 + l then 3
         else if d < 151 + l then 4
         else if d < 181 + l then 5
         else if d < 212 + l then 6
         else if d < 243 + l then 7
         else if d < 273 + l then 8
         else if d < 304 + l then 9
         else if d < 334 + l then 10
         else 11)"

definition DateFromTime :: "nat \<Rightarrow> nat" where
  "DateFromTime t =
     (let d = DayWithinYear t; l = InLeapYear t; m = MonthFromTime t
      in if m = 0 then d + 1
         else if m = 1 then d - 30
         else if m = 2 then d - 58 - l
         else if m = 3 then d - 89 - l
         else if m = 4 then d - 119 - l
         else if m = 5 then d - 150 - l
         else if m = 6 then d - 180 - l
         else if m = 7 then d - 211 - l
         else if m = 8 then d - 242 - l
         else if m = 9 then d - 272 - l
         else if m = 10 then d - 303 - l
         else d - 333 - l)"

definition HourFromTime :: "nat \<Rightarrow> nat" where
  "HourFromTime t = t div 3600000 mod 24"

definition MinFromTime :: "nat \<Rightarrow> nat" where
  "MinFromTime t = t div 60000 mod 60"

definition SecFromTime :: "nat \<Rightarrow> nat" where
  "SecFromTime t = t div 1000 mod 60"

definition msFromTime :: "nat \<Rightarrow> nat" where
  "msFromTime t = t mod 1000"

definition ISO_format :: "nat \<Rightarrow> nat \<Rightarrow> nat \<Rightarrow> nat \<Rightarrow> nat \<Rightarrow> nat \<Rightarrow> nat \<Rightarrow> jsstring" where
  "ISO_format y m d h mi s ms =
     (if y \<le> 9999 then pad 4 y else js ''+'' @ pad 6 y)
     @ js ''-'' @ pad 2 m @ js ''-'' @ pad 2 d
     @ js ''T'' @ pad 2 h @ js '':'' @ pad 2 mi @ js '':'' @ pad 2 s
     @ js ''.'' @ pad 3 ms @ js ''Z''"

definition toISOString :: "nat \<Rightarrow> jsstring" where
  "toISOString t =
     ISO_format (YearFromTime t) (MonthFromTime t + 1) (DateFromTime t)
       (HourFromTime t) (MinFromTime t) (SecFromTime t) (msFromTime t)"

text \<open>
  The two shapes of an ISO 8601 date-time that \<open>toISOString\<close> produces; in a pattern,
  \<open>D\<close> stands for a decimal digit and every other character for itself.
\<close>

definition is_digit :: "nat \<Rightarrow> bool" where
  "is_digit c = (48 \<le> c \<and> c \<le> 57)"

fun matches :: "string \<Rightarrow> jsstring \<Rightarrow> bool" where
  "matches [] [] = True"
| "matches (p # ps) (c # cs) =
     ((if p = CHR ''D'' then is_digit c else c = of_char p) \<and> matches ps cs)"
| "matches ps cs = False"

definition is_ISO_8601 :: "jsstring \<Rightarrow> bool" where
  "is_ISO_8601 s =
     (matches ''DDDD-DD-DDTDD:DD:DD.DDDZ'' s \<or> matches ''+DDDDDD-DD-DDTDD:DD:DD.DDDZ'' s)"

text \<open>
  \<open>new Date(dateString)\<close>, by which \<open>formatDate\<close> of the dashboard reads the timestamp
  of a snapshot: the time value of a string in one of the two complete forms above,
  from the day of the year, the month and the date (\<open>MakeDay\<close>), the time of day
  (\<open>MakeTime\<close>) and the range of time values (\<open>TimeClip\<close>).  The result is \<open>None\<close> for
  the value \<open>NaN\<close>, and for a string in another form or of a year before 1970, which
  are outside this fragment.
\<close>

definition DayFromMonth :: "nat \<Rightarrow> nat \<Rightarrow> nat" where
  "DayFromMonth m l =
     [0, 31, 59, 90, 120, 151, 181, 212, 243, 273, 304, 334] ! m + (if 2 \<le> m then l else 0)"

definition MakeDay :: "nat \<Rightarrow> nat \<Rightarrow> nat \<Rightarrow> nat" where
  "MakeDay y m d =
     DayFromYear y + DayFromMonth m (if DaysInYear y = 366 then 1 else 0) + d - 1"

definition MakeTime :: "nat \<Rightarrow> nat \<Rightarrow> nat \<Rightarrow> nat \<Rightarrow> nat" where
  "MakeTime h mi s ms = h * 3600000 + mi * 60000 + s * 1000 + ms"

definition MakeDate :: "nat \<Rightarrow> nat \<Rightarrow> nat" where
  "MakeDate day time = day * msPerDay + time"

definition TimeClip :: "nat \<Rightarrow> nat option" where
  "TimeClip t = (if t \<le> 8640000000000000 then Some t else None)"

definition number :: "jsstring \<Rightarrow> nat" where
  "number s = foldl (\<lambda>a c. 10 * a + (c - 48)) 0 s"

definition digits_at :: "nat \<Rightarrow> nat \<Rightarrow> jsstring \<Rightarrow> nat" where
  "digits_at i k s = number (take k (drop i s))"

definition date_time :: "nat \<Rightarrow> jsstring \<Rightarrow> nat option" where
  "date_time y r =
     (let mo = digits_at 1 2 r; d = digits_at 4 2 r; h = digits_at 7 2 r; mi = digits_at 10 2 r;
          s = digits_at 13 2 r; ms = digits_at 16 3 r
      in if 1970 \<le> y \<and> 1 \<le> mo \<and> mo \<le> 12 \<and> 1 \<le> d \<and> d \<le> 31
            \<and> (h \<le> 23 \<or> h = 24 \<and> mi = 0 \<and> s = 0 \<and> ms = 0) \<and> mi \<le> 59 \<and> s \<le> 59
         then TimeClip (MakeDate (MakeDay y (mo - 1) d) (MakeTime h mi s ms))
         else None)"

definition Date_parse :: "jsstring \<Rightarrow> nat option" where
  "Date_parse s =
     (if matches ''DDDD-DD-DDTDD:DD:DD.DDDZ'' s then date_time (digits_at 0 4 s) (drop 4 s)
      else if matches ''+DDDDDD-DD-DDTDD:DD:DD.DDDZ'' s then date_time (digits_at 1 6 s) (drop 7 s)
      else None)"

section \<open>JSON.stringify\<close>

text \<open>
  The JSON values that \<open>saveData\<close> builds: strings, arrays and objects with their
  properties in creation order.
\<close>

datatype json = JString jsstring | JArray "json list" | JObject "(jsstring \<times> json) list"

definition hex_digit :: "nat \<Rightarrow> nat" where
  "hex_digit d = (if d < 10 then 48 + d else 87 + d)"

definition unicode_escape :: "nat \<Rightarrow> jsstring" where
  "unicode_escape c =
     [0x5C, 0x75, hex_digit (c div 4096 mod 16), hex_digit (c div 256 mod 16),
      hex_digit (c div 16 mod 16), hex_digit (c mod 16)]"

definition is_high_surrogate :: "nat \<Rightarrow> bool" where
  "is_high_surrogate c = (0xD800 \<le> c \<and> c \<le> 0xDBFF)"

definition is_low_surrogate :: "nat \<Rightarrow> bool" where
  "is_low_surrogate c = (0xDC00 \<le> c \<and> c \<le> 0xDFFF)"

text \<open>
  The body of QuoteJSONString: the two-character escapes, \<open>\u\<close> escapes for the other
  control characters and for unpaired surrogates, every other code unit as it is.
\<close>

fun quote_units :: "jsstring \<Rightarrow> jsstring" where
  "quote_units [] = []"
| "quote_units (c # cs) =
     (if c = 0x8 then [0x5C, 0x62] @ quote_units cs
      else if c = 0x9 then [0x5C, 0x74] @ quote_units cs
      else if c = 0xA then [0x5C, 0x6E] @ quote_units cs
      else if c = 0xC then [0x5C, 0x66] @ quote_units cs
      else if c = 0xD then [0x5C, 0x72] @ quote_units cs
      else if c = 0x22 then [0x5C, 0x22] @ quote_units cs
      else if c = 0x5C then [0x5C, 0x5C] @ quote_units cs
      else if c < 0x20 then unicode_escape c @ quote_units cs
      else if is_high_surrogate c then
        (case cs of
           [] \<Rightarrow> unicode_escape c
         | d # ds \<Rightarrow>
             if is_low_surrogate d then c # d # quote_units ds
             else unicode_escape c @ quote_units cs)
      else if is_low_surrogate c then unicode_escape c @ quote_units cs
      else c # quote_units cs)"

definition QuoteJSONString :: "jsstring \<Rightarrow> jsstring" where
  "QuoteJSONString s = [0x22] @ quote_units s @ [0x22]"

definition gap :: jsstring where
  "gap = js ''  ''"

fun join :: "jsstring \<Rightarrow> jsstring list \<Rightarrow> jsstring" where
  "join sep [] = []"
| "join sep [x] = x"
| "join sep (x # y # ys) = x @ sep @ join sep (y # ys)"

text \<open>
  SerializeJSONProperty with a non-empty gap, at indentation \<open>ind\<close>; \<open>serialize_elements\<close>
  and \<open>serialize_properties\<close> build the lists called \<open>partial\<close> in the standard.
\<close>

fun serialize :: "jsstring \<Rightarrow> json \<Rightarrow> jsstring"
  and serialize_elements :: "jsstring \<Rightarrow> json list \<Rightarrow> jsstring list"
  and serialize_properties :: "jsstring \<Rightarrow> (jsstring \<times> json) list \<Rightarrow> jsstring list" where
  "serialize ind (JString s) = QuoteJSONString s"
| "serialize ind (JArray vs) =
     (if vs = [] then js ''[]''
      else js ''['' @ [0xA] @ (ind @ gap)
           @ join (js '','' @ [0xA] @ (ind @ gap)) (serialize_elements (ind @ gap) vs)
           @ [0xA] @ ind @ js '']'')"
| "serialize ind (JObject ps) =
     (if ps = [] then js ''{}''
      else js ''{'' @ [0xA] @ (ind @ gap)
           @ join (js '','' @ [0xA] @ (ind @ gap)) (serialize_properties (ind @ gap) ps)
           @ [0xA] @ ind @ js ''}'')"
| "serialize_elements ind [] = []"
| "serialize_elements ind (v # vs) = serialize ind v # serialize_elements ind vs"
| "serialize_properties ind [] = []"
| "serialize_properties ind (p # ps) =
     (QuoteJSONString (fst p) @ js '': '' @ serialize ind (snd p)) # serialize_properties ind ps"

text \<open>\<open>JSON.stringify(value, null, 2)\<close>\<close>

definition stringify :: "json \<Rightarrow> jsstring" where
  "stringify v = serialize [] v"

definition registration_json :: "BasketballRegistration \<Rightarrow> json" where
  "registration_json r =
     JObject [(js ''polideportivo'', JString (polideportivo r)),
              (js ''categoria'', JString (categoria r)),
              (js ''actividad'', JString (actividad r)),
              (js ''subcategoria'', JString (subcategoria r)),
              (js ''horario'', JString (horario r))]"

text \<open>The object \<open>data: RegistrationData\<close> of \<open>saveData\<close>.\<close>

definition RegistrationData :: "jsstring \<Rightarrow> BasketballRegistration list \<Rightarrow> json" where
  "RegistrationData timestamp registrations =
     JObject [(js ''timestamp'', JString timestamp),
              (js ''registrations'', JArray (map registration_json registrations))]"

section \<open>JSON.parse\<close>

text \<open>
  The JSON grammar for texts made of strings, arrays and objects; a text with a number
  or a literal name is outside this fragment and yields \<open>None\<close>, as a text that is not
  JSON does.  White space is TAB, LF, CR and SP.
\<close>

definition is_json_ws :: "nat \<Rightarrow> bool" where
  "is_json_ws c = (c = 0x9 \<or> c = 0xA \<or> c = 0xD \<or> c = 0x20)"

definition skip_ws :: "jsstring \<Rightarrow> jsstring" where
  "skip_ws s = dropWhile is_json_ws s"

definition hex_value :: "nat \<Rightarrow> nat option" where
  "hex_value c =
     (if 0x30 \<le> c \<and> c \<le> 0x39 then Some (c - 0x30)
      else if 0x61 \<le> c \<and> c \<le> 0x66 then Some (c - 0x57)
      else if 0x41 \<le> c \<and> c \<le> 0x46 then Some (c - 0x37)
      else None)"

definition hex4 :: "nat \<Rightarrow> nat \<Rightarrow> nat \<Rightarrow> nat \<Rightarrow> nat option" where
  "hex4 a b c d =
     (case (hex_value a, hex_value b, hex_value c, hex_value d) of
        (Some x, Some y, Some z, Some u) \<Rightarrow> Some (4096 * x + 256 * y + 16 * z + u)
      | _ \<Rightarrow> None)"

text \<open>The character that a two-character escape stands for.\<close>

definition unescape :: "nat \<Rightarrow> nat option" where
  "unescape e =
     (if e = 0x22 then Some 0x22
      else if e = 0x5C then Some 0x5C
      else if e = 0x2F then Some 0x2F
      else if e = 0x62 then Some 0x8
      else if e = 0x66 then Some 0xC
      else if e = 0x6E then Some 0xA
      else if e = 0x72 then Some 0xD
      else if e = 0x74 then Some 0x9
      else None)"

fun cons_result :: "nat \<Rightarrow> (jsstring \<times> jsstring) option \<Rightarrow> (jsstring \<times> jsstring) option" where
  "cons_result c None = None"
| "cons_result c (Some (s, r)) = Some (c # s, r)"

text \<open>
  The characters of a string after its opening quote, up to the closing quote, and the
  rest of the text.  A control character must be escaped.
\<close>

fun parse_chars :: "jsstring \<Rightarrow> (jsstring \<times> jsstring) option" where
  "parse_chars [] = None"
| "parse_chars (c # cs) =
     (if c = 0x22 then Some ([], cs)
      else if c = 0x5C then
        (case cs of
           [] \<Rightarrow> None
         | e # r \<Rightarrow>
             if e = 0x75 then
               (case r of
                  h1 # h2 # h3 # h4 # r' \<Rightarrow>
                    (case hex4 h1 h2 h3 h4 of
                       None \<Rightarrow> None
                     | Some u \<Rightarrow> cons_result u (parse_chars r'))
                | _ \<Rightarrow> None)
             else
               (case unescape e of
                  None \<Rightarrow> None
                | Some u \<Rightarrow> cons_result u (parse_chars r)))
      else if c < 0x20 then None
      else cons_result c (parse_chars cs))"

text \<open>
  A value, the elements of an array after its opening bracket and the members of an
  object after its opening brace.  The first argument bounds the number of nested
  calls; \<open>JSON_parse\<close> starts with the length of the text, which is enough for every
  text that \<open>stringify\<close> produces (lemma \<open>fuel_bound\<close>).
\<close>

fun parse_value :: "nat \<Rightarrow> jsstring \<Rightarrow> (json \<times> jsstring) option"
  and parse_elements :: "nat \<Rightarrow> jsstring \<Rightarrow> (json list \<times> jsstring) option"
  and parse_members :: "nat \<Rightarrow> jsstring \<Rightarrow> ((jsstring \<times> json) list \<times> jsstring) option" where
  "parse_value 0 s = None"
| "parse_value (Suc n) s =
     (case skip_ws s of
        [] \<Rightarrow> None
      | c # r \<Rightarrow>
          if c = 0x22 then
            (case parse_chars r of
               None \<Rightarrow> None
             | Some (str, r') \<Rightarrow> Some (JString str, r'))
          else if c = 0x5B then
            (case skip_ws r of
               [] \<Rightarrow> None
             | d # r' \<Rightarrow>
                 if d = 0x5D then Some (JArray [], r')
                 else
                   (case parse_elements n r of
                      None \<Rightarrow> None
                    | Some (vs, r'') \<Rightarrow> Some (JArray vs, r'')))
          else if c = 0x7B then
            (case skip_ws r of
               [] \<Rightarrow> None
             | d # r' \<Rightarrow>
                 if d = 0x7D then Some (JObject [], r')
                 else
                   (case parse_members n r of
                      None \<Rightarrow> None
                    | Some (ps, r'') \<Rightarrow> Some (JObject ps, r'')))
          else None)"
| "parse_elements 0 s = None"
| "parse_elements (Suc n) s =
     (case parse_value n s of
        None \<Rightarrow> None
      | Some (v, r) \<Rightarrow>
          (case skip_ws r of
             [] \<Rightarrow> None
           | c # r' \<Rightarrow>
               if c = 0x2C then
                 (case parse_elements n r' of
                    None \<Rightarrow> None
                  | Some (vs, r'') \<Rightarrow> Some (v # vs, r''))
               else if c = 0x5D then Some ([v], r')
               else None))"
| "parse_members 0 s = None"
| "parse_members (Suc n) s =
     (case skip_ws s of
        [] \<Rightarrow> None
      | c # r \<Rightarrow>
          if c = 0x22 then
            (case parse_chars r of
               None \<Rightarrow> None
             | Some (k, r1) \<Rightarrow>
                 (case skip_ws r1 of
                    [] \<Rightarrow> None
                  | c1 # r2 \<Rightarrow>
                      if c1 = 0x3A then
                        (case parse_value n r2 of
                           None \<Rightarrow> None
                         | Some (v, r3) \<Rightarrow>
                             (case skip_ws r3 of
                                [] \<Rightarrow> None
                              | c3 # r4 \<Rightarrow>
                                  if c3 = 0x2C then
                                    (case parse_members n r4 of
                                       None \<Rightarrow> None
                                     | Some (ps, r5) \<Rightarrow> Some ((k, v) # ps, r5))
                                  else if c3 = 0x7D then Some ([(k, v)], r4)
                                  else None))
                      else None))
          else None)"

definition JSON_parse :: "jsstring \<Rightarrow> json option" where
  "JSON_parse text =
     (case parse_value (length text) text of
        None \<Rightarrow> None
      | Some (v, r) \<Rightarrow> if skip_ws r = [] then Some v else None)"

text \<open>
  Reading a property of a parsed object: of two members with one key the later one
  wins.  \<open>load\<close> parses the persisted text and reads the two fields of the snapshot and
  the five fields of every registration.
\<close>

definition property :: "jsstring \<Rightarrow> json \<Rightarrow> json option" where
  "property k v = (case v of JObject ps \<Rightarrow> map_of (rev ps) k | _ \<Rightarrow> None)"

fun string_of_json :: "json option \<Rightarrow> jsstring option" where
  "string_of_json (Some (JString s)) = Some s"
| "string_of_json v = None"

definition registration_of :: "json \<Rightarrow> BasketballRegistration option" where
  "registration_of v =
     (case (string_of_json (property (js ''polideportivo'') v),
            string_of_json (property (js ''categoria'') v),
            string_of_json (property (js ''actividad'') v),
            string_of_json (property (js ''subcategoria'') v),
            string_of_json (property (js ''horario'') v)) of
        (Some a, Some b, Some c, Some d, Some e) \<Rightarrow>
          Some \<lparr>polideportivo = a, categoria = b, actividad = c, subcategoria = d, horario = e\<rparr>
      | _ \<Rightarrow> None)"

definition snapshot_of :: "json \<Rightarrow> (jsstring \<times> BasketballRegistration list) option" where
  "snapshot_of v =
     (case (string_of_json (property (js ''timestamp'') v), property (js ''registrations'') v) of
        (Some t, Some (JArray vs)) \<Rightarrow>
          (case those (map registration_of vs) of
             None \<Rightarrow> None
           | Some rs \<Rightarrow> Some (t, rs))
      | _ \<Rightarrow> None)"

definition load :: "jsstring \<Rightarrow> (jsstring \<times> BasketballRegistration list) option" where
  "load text = (case JSON_parse text of None \<Rightarrow> None | Some v \<Rightarrow> snapshot_of v)"

section \<open>The body of the blob\<close>

text \<open>
  A string handed to \<open>put\<close> is stored as its UTF-8 encoding: the string is read as scalar
  values, an unpaired surrogate as U+FFFD, and every scalar value is written in one to
  four bytes.
\<close>

fun scalar_values :: "jsstring \<Rightarrow> nat list" where
  "scalar_values [] = []"
| "scalar_values (c # cs) =
     (if is_high_surrogate c then
        (case cs of
           [] \<Rightarrow> [0xFFFD]
         | d # ds \<Rightarrow>
             if is_low_surrogate d
             then (0x10000 + (c - 0xD800) * 0x400 + (d - 0xDC00)) # scalar_values ds
             else 0xFFFD # scalar_values cs)
      else if is_low_surrogate c then 0xFFFD # scalar_values cs
      else c # scalar_values cs)"

definition encode_scalar :: "nat \<Rightarrow> nat list" where
  "encode_scalar v =
     (if v < 0x80 then [v]
      else if v < 0x800 then [0xC0 + v div 64, 0x80 + v mod 64]
      else if v < 0x10000 then [0xE0 + v div 4096, 0x80 + v div 64 mod 64, 0x80 + v mod 64]
      else [0xF0 + v div 262144, 0x80 + v div 4096 mod 64, 0x80 + v div 64 mod 64,
            0x80 + v mod 64])"

definition utf8_encode :: "jsstring \<Rightarrow> nat list" where
  "utf8_encode s = concat (map encode_scalar (scalar_values s))"

text \<open>
  The decoding of well-formed UTF-8 back to code units.  A malformed sequence (a stray or
  missing continuation byte, an overlong form, an encoded surrogate, a value beyond
  U+10FFFF) yields \<open>None\<close> here, where the decoder of the platform would substitute
  U+FFFD; the encoding of a string is never malformed.
\<close>

definition is_continuation :: "nat \<Rightarrow> bool" where
  "is_continuation b = (0x80 \<le> b \<and> b \<le> 0xBF)"

definition code_units :: "nat \<Rightarrow> jsstring" where
  "code_units v =
     (if v < 0x10000 then [v]
      else [0xD800 + (v - 0x10000) div 0x400, 0xDC00 + (v - 0x10000) mod 0x400])"

fun append_result :: "jsstring \<Rightarrow> jsstring option \<Rightarrow> jsstring option" where
  "append_result u None = None"
| "append_result u (Some s) = Some (u @ s)"

fun utf8_decode :: "nat list \<Rightarrow> jsstring option" where
  "utf8_decode [] = Some []"
| "utf8_decode (b # bs) =
     (if b < 0x80 then append_result [b] (utf8_decode bs)
      else if 0xC2 \<le> b \<and> b \<le> 0xDF then
        (case bs of
           b1 # r \<Rightarrow>
             if is_continuation b1
             then append_result [(b - 0xC0) * 64 + (b1 - 0x80)] (utf8_decode r)
             else None
         | _ \<Rightarrow> None)
      else if 0xE0 \<le> b \<and> b \<le> 0xEF then
        (case bs of
           b1 # b2 # r \<Rightarrow>
             if is_continuation b1 \<and> is_continuation b2
                \<and> 0x800 \<le> (b - 0xE0) * 4096 + (b1 - 0x80) * 64 + (b2 - 0x80)
                \<and> \<not> (0xD800 \<le> (b - 0xE0) * 4096 + (b1 - 0x80) * 64 + (b2 - 0x80)
                       \<and> (b - 0xE0) * 4096 + (b1 - 0x80) * 64 + (b2 - 0x80) \<le> 0xDFFF)
             then append_result [(b - 0xE0) * 4096 + (b1 - 0x80) * 64 + (b2 - 0x80)]
                    (utf8_decode r)
             else None
         | _ \<Rightarrow> None)
      else if 0xF0 \<le> b \<and> b \<le> 0xF4 then
        (case bs of
           b1 # b2 # b3 # r \<Rightarrow>
             if is_continuation b1 \<and> is_continuation b2 \<and> is_continuation b3
                \<and> 0x10000 \<le> (b - 0xF0) * 262144 + (b1 - 0x80) * 4096 + (b2 - 0x80) * 64
                              + (b3 - 0x80)
                \<and> (b - 0xF0) * 262144 + (b1 - 0x80) * 4096 + (b2 - 0x80) * 64 + (b3 - 0x80)
                    \<le> 0x10FFFF
             then append_result
                    (code_units ((b - 0xF0) * 262144 + (b1 - 0x80) * 4096 + (b2 - 0x80) * 64
                                 + (b3 - 0x80)))
                    (utf8_decode r)
             else None
         | _ \<Rightarrow> None)
      else None)"

text \<open>\<open>response.text()\<close>: the decoded body without a leading byte-order mark.\<close>

definition response_text :: "nat list \<Rightarrow> jsstring option" where
  "response_text body =
     (case utf8_decode body of
        None \<Rightarrow> None
      | Some s \<Rightarrow> Some (case s of [] \<Rightarrow> [] | c # cs \<Rightarrow> if c = 0xFEFF then cs else s))"

text \<open>What a reader of the blob gets: the decoded body, parsed and read as a snapshot.\<close>

definition read_snapshot :: "nat list \<Rightarrow> (jsstring \<times> BasketballRegistration list) option" where
  "read_snapshot body = (case response_text body of None \<Rightarrow> None | Some text \<Rightarrow> load text)"

section \<open>The notification message\<close>

definition tableRow :: "BasketballRegistration \<Rightarrow> jsstring" where
  \<open>tableRow item =
     js ''\<newline>'' @
     js ''      <tr style="border-bottom: 1px solid #e0e0e0;">\<newline>'' @
     js ''        <td style="padding: 12px; text-align: left;">'' @
     polideportivo item @
     js ''</td>\<newline>'' @
     js ''        <td style="padding: 12px; text-align: left;">'' @
     categoria item @
     js ''</td>\<newline>'' @
     js ''        <td style="padding: 12px; text-align: left;">'' @
     actividad item @
     js ''</td>\<newline>'' @
     js ''        <td style="padding: 12px; text-align: left;">'' @
     subcategoria item @
     js ''</td>\<newline>'' @
     js ''        <td style="padding: 12px; text-align: left;">'' @
     horario item @
     js ''</td>\<newline>'' @
     js ''      </tr>\<newline>'' @
     js ''    ''\<close>

definition blobLink :: "jsstring option \<Rightarrow> jsstring" where
  \<open>blobLink blobUrl =
     (if truthy blobUrl then
        js ''<p style="margin: 5px 0;">'' @
        [0xD83D, 0xDD17] @
        js '' <a href="'' @
        string_of blobUrl @
        js ''">Ver datos en formato JSON</a></p>''
      else [])\<close>

definition htmlTable :: "BasketballRegistration list \<Rightarrow> jsstring option \<Rightarrow> jsstring \<Rightarrow> jsstring" where
  \<open>htmlTable registrations blobUrl localeDate =
     js ''\<newline>'' @
     js ''      <!DOCTYPE html>\<newline>'' @
     js ''      <html lang="es">\<newline>'' @
     js ''      <head>\<newline>'' @
     js ''        <meta charset="UTF-8">\<newline>'' @
     js ''        <meta name="viewport" content="width=device-width, initial-scale=1.0">\<newline>'' @
     js ''        <title>Inscripciones B'' @
     [0xE1] @
     js ''squet</title>\<newline>'' @
     js ''      </head>\<newline>'' @
     js ''      <body style="font-family: 'Arial', sans-serif; margin: 0; padding: 20px; background-color: #f7f7f7;">\<newline>'' @
     js ''        <div style="max-width: 800px; margin: 0 auto; background-color: white; border-radius: 10px; box-shadow: 0 2px 10px rgba(0,0,0,0.1);">\<newline>'' @
     js ''          <!-- Header -->\<newline>'' @
     js ''          <div style="background-color: #2c3e50; padding: 25px; border-radius: 10px 10px 0 0;">\<newline>'' @
     js ''            <h1 style="color: white; margin: 0; font-size: 24px; display: flex; align-items: center; gap: 10px;">\<newline>'' @
     js ''              '' @
     [0xD83C, 0xDFC0] @
     js '' Inscripciones Disponibles\<newline>'' @
     js ''            </h1>\<newline>'' @
     js ''          </div>\<newline>'' @
     js ''\<newline>'' @
     js ''          <!-- Content -->\<newline>'' @
     js ''          <div style="padding: 25px;">\<newline>'' @
     js ''            <p style="color: #666; margin-bottom: 25px; font-size: 15px;">\<newline>'' @
     js ''              Se encontraron <strong>'' @
     toString (length registrations) @
     js '' inscripciones</strong> disponibles \<newline>'' @
     js ''              para b'' @
     [0xE1] @
     js ''squet. Fecha de consulta: '' @
     localeDate @
     js ''\<newline>'' @
     js ''            </p>\<newline>'' @
     js ''\<newline>'' @
     js ''            <!-- Table -->\<newline>'' @
     js ''            <div style="overflow-x: auto;">\<newline>'' @
     js ''              <table style="width: 100%; border-collapse: collapse; margin-bottom: 25px;">\<newline>'' @
     js ''                <thead>\<newline>'' @
     js ''                  <tr style="background-color: #f8f9fa; color: #2c3e50;">\<newline>'' @
     js ''                    <th style="padding: 15px; text-align: left; min-width: 150px;">Polideportivo</th>\<newline>'' @
     js ''                    <th style="padding: 15px; text-align: left;">Categor'' @
     [0xED] @
     js ''a</th>\<newline>'' @
     js ''                    <th style="padding: 15px; text-align: left;">Actividad</th>\<newline>'' @
     js ''                    <th style="padding: 15px; text-align: left;">Subcategor'' @
     [0xED] @
     js ''a</th>\<newline>'' @
     js ''                    <th style="padding: 15px; text-align: left;">Horario</th>\<newline>'' @
     js ''                  </tr>\<newline>'' @
     js ''                </thead>\<newline>'' @
     js ''                <tbody>\<newline>'' @
     js ''                  '' @
     concat (map tableRow registrations) @
     js ''\<newline>'' @
     js ''                </tbody>\<newline>'' @
     js ''              </table>\<newline>'' @
     js ''            </div>\<newline>'' @
     js ''\<newline>'' @
     js ''            <!-- Footer -->\<newline>'' @
     js ''            <div style="border-top: 1px solid #eee; padding-top: 20px; color: #666; font-size: 14px;">\<newline>'' @
     js ''              <p style="margin: 5px 0;">'' @
     [0xD83D, 0xDCC5] @
     js '' Actualizado autom'' @
     [0xE1] @
     js ''ticamente cada '' @
     toString SCRAPE_INTERVAL_HOURS @
     js '' horas</p>\<newline>'' @
     js ''              <p style="margin: 5px 0;">'' @
     [0x26A0, 0xFE0F] @
     js '' Este es un mensaje autom'' @
     [0xE1] @
     js ''tico, por favor no responder</p>\<newline>'' @
     js ''              '' @
     blobLink blobUrl @
     js ''\<newline>'' @
     js ''            </div>\<newline>'' @
     js ''          </div>\<newline>'' @
     js ''        </div>\<newline>'' @
     js ''      </body>\<newline>'' @
     js ''      </html>\<newline>'' @
     js ''    ''\<close>

definition htmlEmpty :: jsstring where
  \<open>htmlEmpty =
     js ''\<newline>'' @
     js ''      <div style="max-width: 600px; margin: 0 auto; padding: 30px; background-color: #fff3cd; border-radius: 8px; text-align: center;">\<newline>'' @
     js ''        <h2 style="color: #856404; margin-top: 0;">'' @
     [0x26A0, 0xFE0F] @
     js '' No hay inscripciones disponibles</h2>\<newline>'' @
     js ''        <p style="color: #856404;">No se encontraron inscripciones de b'' @
     [0xE1] @
     js ''squet en este momento.</p>\<newline>'' @
     js ''        <p style="color: #856404;">Prueba nuevamente m'' @
     [0xE1] @
     js ''s tarde o verifica directamente en el sitio.</p>\<newline>'' @
     js ''      </div>\<newline>'' @
     js ''    ''\<close>

definition htmlContent :: "BasketballRegistration list \<Rightarrow> jsstring option \<Rightarrow> jsstring \<Rightarrow> jsstring" where
  "htmlContent registrations blobUrl localeDate =
     (if length registrations > 0 then htmlTable registrations blobUrl localeDate
      else htmlEmpty)"

definition subject :: "BasketballRegistration list \<Rightarrow> jsstring" where
  "subject registrations =
     [0xD83C, 0xDFC0] @ js '' '' @
     (if length registrations > 0 then js ''Nuevas Inscripciones Disponibles!''
      else js ''Sin inscripciones disponibles'')"

record Message =
  msg_to :: jsstring
  msg_from :: jsstring
  msg_subject :: jsstring
  msg_html :: jsstring

section \<open>Effects\<close>

text \<open>
  A thrown value.  A run is modelled against a \<open>world\<close> that fixes the outcome of every
  call the run makes outside the program: the browser, the blob store, the mail client,
  the environment and the clock (\<open>Date_now\<close> is the time value that \<open>new Date()\<close> reads
  in \<open>saveData\<close>; a time value is at most 8640000000000000).  \<open>None\<close> (or \<open>Inr\<close>) is a call that resolves, \<open>Some e\<close>
  (or \<open>Inl e\<close>) one that rejects with \<open>e\<close>.  \<open>send_result w n\<close> is the outcome of the
  \<open>n\<close>-th call of \<open>sgMail.send\<close> in the run, counted from 0.  Console output is not
  modelled.
\<close>

datatype exn = TimeoutError string | Error string

record world =
  launch_result :: "exn option"
  newPage_result :: "exn option"
  goto_result :: "exn option"
  click_radio_result :: "exn option"
  select_categoria_result :: "exn option"
  select_actividad_result :: "exn option"
  search_result :: "exn option"
  waitForSelector_result :: "exn option"
  document_result :: "exn + document"
  put_result :: "string \<Rightarrow> exn + jsstring"
  screenshot_result :: "exn + nat list"
  send_result :: "nat \<Rightarrow> exn option"
  close_result :: "exn option"
  RECIPIENT_EMAIL :: "jsstring option"
  FROM_EMAIL :: "jsstring option"
  Date_now :: nat
  now_LocaleDateString :: jsstring

text \<open>
  The calls of a run, in the order in which they are made.  \<open>Invoke_saveData\<close> and
  \<open>Invoke_sendEmail\<close> mark the entry into the two methods; every other event is a call
  that leaves the program.
\<close>

datatype event =
    Launch
  | NewPage
  | Goto jsstring nat
  | EvaluateClick string
  | Delay nat
  | Select string string
  | ClickAndWaitForNavigation string
  | WaitForSelector string nat
  | EvaluateRows
  | Screenshot
  | Put string "nat list" string
  | Send Message
  | Close
  | SetInterval nat
  | Invoke_saveData "BasketballRegistration list"
  | Invoke_sendEmail "BasketballRegistration list" "jsstring option"

fun is_Send :: "event \<Rightarrow> bool" where
  "is_Send (Send m) = True"
| "is_Send e = False"

text \<open>The state of a run: the calls made so far, and whether \<open>page\<close> has been assigned.\<close>

record state =
  trace :: "event list"
  page :: bool

type_synonym 'a io = "state \<Rightarrow> (exn + 'a) \<times> state"

definition ret :: "'a \<Rightarrow> 'a io" where
  "ret x = (\<lambda>s. (Inr x, s))"

definition throw :: "exn \<Rightarrow> 'a io" where
  "throw e = (\<lambda>s. (Inl e, s))"

definition bind :: "'a io \<Rightarrow> ('a \<Rightarrow> 'b io) \<Rightarrow> 'b io" where
  "bind m f = (\<lambda>s. case m s of (Inl e, s') \<Rightarrow> (Inl e, s') | (Inr x, s') \<Rightarrow> f x s')"

definition try_catch :: "'a io \<Rightarrow> (exn \<Rightarrow> 'a io) \<Rightarrow> 'a io" where
  "try_catch m h = (\<lambda>s. case m s of (Inl e, s') \<Rightarrow> h e s' | (Inr x, s') \<Rightarrow> (Inr x, s'))"

text \<open>A \<open>finally\<close> block that throws replaces the completion of the block it follows.\<close>

definition try_finally :: "'a io \<Rightarrow> unit io \<Rightarrow> 'a io" where
  "try_finally m fin =
     (\<lambda>s. case m s of (r, s') \<Rightarrow>
        (case fin s' of (Inl e, s'') \<Rightarrow> (Inl e, s'') | (Inr u, s'') \<Rightarrow> (r, s'')))"

definition perform :: "event \<Rightarrow> exn + 'a \<Rightarrow> 'a io" where
  "perform ev r = (\<lambda>s. (r, s\<lparr>trace := trace s @ [ev]\<rparr>))"

fun outcome :: "exn option \<Rightarrow> exn + unit" where
  "outcome None = Inr ()"
| "outcome (Some e) = Inl e"

definition assign_page :: "bool \<Rightarrow> unit io" where
  "assign_page b = (\<lambda>s. (Inr (), s\<lparr>page := b\<rparr>))"

definition read_page :: "bool io" where
  "read_page = (\<lambda>s. (Inr (page s), s))"

definition sgMail_send :: "world \<Rightarrow> Message \<Rightarrow> unit io" where
  "sgMail_send w m =
     (\<lambda>s. (outcome (send_result w (length (filter is_Send (trace s)))),
           s\<lparr>trace := trace s @ [Send m]\<rparr>))"

section \<open>BasketballRegistrationScraper\<close>

definition saveData :: "world \<Rightarrow> BasketballRegistration list \<Rightarrow> jsstring io" where
  "saveData w registrations =
     bind (perform (Invoke_saveData registrations) (Inr ())) (\<lambda>_.
     try_catch
       (bind (perform (Put BLOB_FILENAME
                         (stringify (RegistrationData (toISOString (Date_now w)) registrations))
                         ''application/json'')
                      (put_result w BLOB_FILENAME)) (\<lambda>url.
        ret url))
       (\<lambda>error. throw error))"

text \<open>The object \<open>msg\<close> that \<open>sendEmail\<close> builds once the addresses are known.\<close>

definition msg :: "world \<Rightarrow> BasketballRegistration list \<Rightarrow> jsstring option \<Rightarrow> Message" where
  "msg w registrations blobUrl =
     \<lparr>msg_to = string_of (RECIPIENT_EMAIL w),
      msg_from = string_of (FROM_EMAIL w),
      msg_subject = subject registrations,
      msg_html = htmlContent registrations blobUrl (now_LocaleDateString w)\<rparr>"

definition sendEmail :: "world \<Rightarrow> BasketballRegistration list \<Rightarrow> jsstring option \<Rightarrow> unit io" where
  "sendEmail w registrations blobUrl =
     bind (perform (Invoke_sendEmail registrations blobUrl) (Inr ())) (\<lambda>_.
     if \<not> truthy (RECIPIENT_EMAIL w) \<or> \<not> truthy (FROM_EMAIL w) then ret ()
     else
       try_catch
         (sgMail_send w (msg w registrations blobUrl))
         (\<lambda>error. throw error))"

text \<open>
  Steps 1 to 6 of the \<open>try\<close> block of \<open>scrape\<close>: the page is opened and driven
  through the form, and the rows of the result table are read.
\<close>

definition extraction :: "world \<Rightarrow> BasketballRegistration list io" where
  "extraction w =
     bind (perform NewPage (outcome (newPage_result w))) (\<lambda>_.
     bind (assign_page True) (\<lambda>_.
     bind (perform (Goto URL 60000) (outcome (goto_result w))) (\<lambda>_.
     bind (perform (EvaluateClick ''#MainContent_TipoBusqueda_1'')
                   (outcome (click_radio_result w))) (\<lambda>_.
     bind (perform (Delay 3000) (Inr ())) (\<lambda>_.
     bind (perform (Select ''#MainContent_ddlCategoria'' ''1'')
                   (outcome (select_categoria_result w))) (\<lambda>_.
     bind (perform (Delay 3000) (Inr ())) (\<lambda>_.
     bind (perform (Select ''#MainContent_ddlActividad'' ''16'')
                   (outcome (select_actividad_result w))) (\<lambda>_.
     bind (perform (Delay 3000) (Inr ())) (\<lambda>_.
     bind (perform (ClickAndWaitForNavigation ''#MainContent_btnBuscarCat'')
                   (outcome (search_result w))) (\<lambda>_.
     bind (perform (WaitForSelector ''#MainContent_gvBuscarActXCat'' 10000)
                   (outcome (waitForSelector_result w))) (\<lambda>_.
     perform EvaluateRows (map_sum id evaluate_rows (document_result w)))))))))))))"

text \<open>The \<open>try\<close> block of \<open>scrape\<close>: steps 1 to 6, then step 7, save and send.\<close>

definition scrape_try :: "world \<Rightarrow> unit io" where
  "scrape_try w =
     bind (extraction w) (\<lambda>registrations.
     bind (saveData w registrations) (\<lambda>blobUrl.
     sendEmail w registrations (Some blobUrl)))"

text \<open>
  The screenshot block of the \<open>catch\<close> clause, with its own \<open>try\<close>/\<open>catch\<close> that only
  logs.
\<close>

definition capture :: "world \<Rightarrow> unit io" where
  "capture w =
     try_catch
       (bind (perform Screenshot (screenshot_result w)) (\<lambda>screenshot.
        bind (perform (Put ''error-screenshot.png'' screenshot ''image/png'')
                      (put_result w ''error-screenshot.png'')) (\<lambda>url.
        ret ())))
       (\<lambda>screenshotError. ret ())"

text \<open>The \<open>catch\<close> clause of \<open>scrape\<close>.\<close>

definition scrape_catch :: "world \<Rightarrow> exn \<Rightarrow> unit io" where
  "scrape_catch w error =
     bind read_page (\<lambda>p.
     if p then bind (capture w) (\<lambda>_. sendEmail w [] None)
     else ret ())"

definition scrape :: "world \<Rightarrow> unit io" where
  "scrape w =
     bind (perform Launch (outcome (launch_result w))) (\<lambda>_.
     bind (assign_page False) (\<lambda>_.
     try_finally
       (try_catch (scrape_try w) (scrape_catch w))
       (perform Close (outcome (close_result w)))))"

text \<open>
  \<open>start\<close>, up to the installation of the timer: the first run is awaited, then
  \<open>setInterval\<close> is called with the period in milliseconds.
\<close>

definition start :: "world \<Rightarrow> unit io" where
  "start w =
     bind (scrape w) (\<lambda>_.
     perform (SetInterval (SCRAPE_INTERVAL_HOURS * 60 * 60 * 1000)) (Inr ()))"

definition initial :: state where
  "initial = \<lparr>trace = [], page = False\<rparr>"

section \<open>Vocabulary for the properties\<close>

text \<open>Both addresses are present in the environment.\<close>

definition configured :: "world \<Rightarrow> bool" where
  "configured w = (truthy (RECIPIENT_EMAIL w) \<and> truthy (FROM_EMAIL w))"

text \<open>The calls that the screenshot block makes: the upload only if the screenshot was taken.\<close>

definition capture_events :: "world \<Rightarrow> event list" where
  "capture_events w =
     (case screenshot_result w of
        Inl e \<Rightarrow> [Screenshot]
      | Inr b \<Rightarrow> [Screenshot, Put ''error-screenshot.png'' b ''image/png''])"

text \<open>The calls of steps 1 to 6.\<close>

fun is_step :: "event \<Rightarrow> bool" where
  "is_step NewPage = True"
| "is_step (Goto u t) = True"
| "is_step (EvaluateClick x) = True"
| "is_step (Delay n) = True"
| "is_step (Select a b) = True"
| "is_step (ClickAndWaitForNavigation x) = True"
| "is_step (WaitForSelector x n) = True"
| "is_step EvaluateRows = True"
| "is_step e = False"

text \<open>The state in which the \<open>try\<close> block of a run from \<open>initial\<close> starts.\<close>

definition launched :: state where
  "launched = \<lparr>trace = [Launch], page = False\<rparr>"

text \<open>The calls of a whole run, and the calls of \<open>sgMail.send\<close> among them.\<close>

definition run_trace :: "world \<Rightarrow> event list" where
  "run_trace w = trace (snd (scrape w initial))"

definition sent :: "event list \<Rightarrow> event list" where
  "sent t = filter is_Send t"

text \<open>The calls of one \<open>saveData\<close> and of one \<open>sendEmail\<close>.\<close>

definition save_events :: "world \<Rightarrow> BasketballRegistration list \<Rightarrow> event list" where
  "save_events w registrations =
     [Invoke_saveData registrations,
      Put BLOB_FILENAME (stringify (RegistrationData (toISOString (Date_now w)) registrations))
        ''application/json'']"

definition notify_events ::
  "world \<Rightarrow> BasketballRegistration list \<Rightarrow> jsstring option \<Rightarrow> event list" where
  "notify_events w registrations blobUrl =
     Invoke_sendEmail registrations blobUrl
     # (if configured w then [Send (msg w registrations blobUrl)] else [])"

text \<open>
  The calls and the completion of a run whose browser was launched, by cases on the
  outcome of steps 1 to 6, of the upload and of the first send.
\<close>

definition run_events :: "world \<Rightarrow> event list" where
  "run_events w =
     (case extraction w launched of
        (Inl e, s) \<Rightarrow>
          trace s @ (if page s then capture_events w @ notify_events w [] None else [])
      | (Inr regs, s) \<Rightarrow>
          trace s @ save_events w regs @
          (case put_result w BLOB_FILENAME of
             Inl e \<Rightarrow> capture_events w @ notify_events w [] None
           | Inr url \<Rightarrow>
               notify_events w regs (Some url) @
               (if configured w \<and> send_result w 0 \<noteq> None
                then capture_events w @ notify_events w [] None else [])))
     @ [Close]"

definition run_result :: "world \<Rightarrow> exn + unit" where
  "run_result w =
     (case close_result w of
        Some c \<Rightarrow> Inl c
      | None \<Rightarrow>
          (case extraction w launched of
             (Inl e, s) \<Rightarrow> if page s \<and> configured w then outcome (send_result w 0) else Inr ()
           | (Inr regs, s) \<Rightarrow>
               (case put_result w BLOB_FILENAME of
                  Inl e \<Rightarrow> if configured w then outcome (send_result w 0) else Inr ()
                | Inr url \<Rightarrow>
                    if configured w \<and> send_result w 0 \<noteq> None then outcome (send_result w 1)
                    else Inr ())))"

text \<open>The calls made between the launch of the browser and its close.\<close>

fun is_inner :: "event \<Rightarrow> bool" where
  "is_inner Launch = False"
| "is_inner Close = False"
| "is_inner (SetInterval n) = False"
| "is_inner e = True"

text \<open>Measures and classes of characters used in the proofs about JSON texts.\<close>

fun fuel :: "json \<Rightarrow> nat"
  and fuel_elements :: "json list \<Rightarrow> nat"
  and fuel_members :: "(jsstring \<times> json) list \<Rightarrow> nat" where
  "fuel (JString s) = 1"
| "fuel (JArray vs) = 1 + fuel_elements vs"
| "fuel (JObject ps) = 1 + fuel_members ps"
| "fuel_elements [] = 0"
| "fuel_elements (v # vs) = 1 + fuel v + fuel_elements vs"
| "fuel_members [] = 0"
| "fuel_members (p # ps) = 1 + fuel (snd p) + fuel_members ps"

definition value_start :: "nat \<Rightarrow> bool" where
  "value_start c = (c = 0x22 \<or> c = 0x5B \<or> c = 0x7B)"

definition is_special :: "nat \<Rightarrow> bool" where
  "is_special c = (c = 0x8 \<or> c = 0x9 \<or> c = 0xA \<or> c = 0xC \<or> c = 0xD \<or> c = 0x22 \<or> c = 0x5C)"

text \<open>
  Strings of code units, strings without unpaired surrogates, and JSON values and
  registrations whose strings are strings of code units.
\<close>

definition valid_string :: "jsstring \<Rightarrow> bool" where
  "valid_string s = list_all (\<lambda>c. c < 0x10000) s"

fun well_formed :: "jsstring \<Rightarrow> bool" where
  "well_formed [] = True"
| "well_formed (c # cs) =
     (if is_high_surrogate c then
        (case cs of [] \<Rightarrow> False | d # ds \<Rightarrow> is_low_surrogate d \<and> well_formed ds)
      else \<not> is_low_surrogate c \<and> c < 0x10000 \<and> well_formed cs)"

fun valid_json :: "json \<Rightarrow> bool"
  and valid_elements :: "json list \<Rightarrow> bool"
  and valid_members :: "(jsstring \<times> json) list \<Rightarrow> bool" where
  "valid_json (JString s) = valid_string s"
| "valid_json (JArray vs) = valid_elements vs"
| "valid_json (JObject ps) = valid_members ps"
| "valid_elements [] = True"
| "valid_elements (v # vs) = (valid_json v \<and> valid_elements vs)"
| "valid_members [] = True"
| "valid_members (p # ps) = (valid_string (fst p) \<and> valid_json (snd p) \<and> valid_members ps)"

definition valid_registration :: "BasketballRegistration \<Rightarrow> bool" where
  "valid_registration r =
     (valid_string (polideportivo r) \<and> valid_string (categoria r) \<and> valid_string (actividad r)
      \<and> valid_string (subcategoria r) \<and> valid_string (horario r))"

section \<open>Sample pages and worlds\<close>

definition td :: "jsstring \<Rightarrow> node" where
  "td s = Element ''td'' [] [Text s]"

definition header_row :: node where
  "header_row =
     Element ''tr'' []
       [Element ''th'' [] [], Element ''th'' [] [Text (js ''Polideportivo'')],
        Element ''th'' [] [Text (js ''Horario'')]]"

definition full_row :: node where
  "full_row =
     Element ''tr'' []
       [Text [0xA], td (js ''Ver''), Text [0xA], td (js '' Colinas ''), td (js ''DEPORTE''),
        td (js ''BASQUET''), td (js ''Sub 13''), td ([0xA] @ js ''Lun 18:00'' @ [0x9]),
        Text [0xA]]"

definition short_row :: node where
  "short_row = Element ''tr'' [] [td (js ''Ver''), td (js ''Libertad''), td (js ''   '')]"

text \<open>
  The elements around the results table, and three tables: a header row and two data
  rows in one group, a header row alone, and the header row in a group of its own.
\<close>

definition sample_context :: "frame list" where
  "sample_context =
     [(''html'', [], [Element ''head'' [] []], []),
      (''body'', [], [Text [0xA]], [Text [0xA]]),
      (''form'', ''form1'', [Element ''h1'' [] [Text (js ''Inscripciones'')]], [])]"

definition sample_groups :: "node list" where
  "sample_groups =
     [Text [0xA], Element ''tbody'' [] [header_row, Text [0xA], full_row, short_row, Text [0xA]]]"

definition sample_page :: document where
  "sample_page =
     \<lparr>quirks = False,
      documentElement = enclose sample_context (Element ''table'' RESULTS_ID sample_groups)\<rparr>"

definition empty_page :: document where
  "empty_page =
     \<lparr>quirks = False,
      documentElement =
        enclose sample_context
          (Element ''table'' RESULTS_ID [Element ''tbody'' [] [header_row]])\<rparr>"


definition sample_registration :: BasketballRegistration where
  "sample_registration =
     \<lparr>polideportivo = js ''Polideportivo Libertad'',
      categoria = js ''DEPORTE'',
      actividad = js ''B'' @ [0xE1] @ js ''squet '' @ [0x22] @ js ''Sub 13'' @ [0x22],
      subcategoria = [0xD83C, 0xDFC0, 0x9, 0xDFC0],
      horario = js ''Lun 18:00''\<rparr>"

text \<open>A world in which every call succeeds and the result table has two data rows.\<close>

definition ok_world :: world where
  "ok_world =
     \<lparr>launch_result = None,
      newPage_result = None,
      goto_result = None,
      click_radio_result = None,
      select_categoria_result = None,
      select_actividad_result = None,
      search_result = None,
      waitForSelector_result = None,
      document_result = Inr sample_page,
      put_result = (\<lambda>name. Inr (js ''https://blob.example/'' @ js name)),
      screenshot_result = Inr [0x89, 0x50, 0x4E, 0x47],
      send_result = (\<lambda>n. None),
      close_result = None,
      RECIPIENT_EMAIL = Some (js ''to@example.com''),
      FROM_EMAIL = Some (js ''from@example.com''),
      Date_now = 1740830400000,
      now_LocaleDateString = js ''1/3/2025''\<rparr>"

text \<open>Variations: an empty result table, and failures of single calls.\<close>

definition zero_world :: world where
  "zero_world = ok_world\<lparr>document_result := Inr empty_page\<rparr>"

definition goto_fails :: world where
  "goto_fails = ok_world\<lparr>goto_result := Some (TimeoutError ''Navigation timeout of 60000 ms exceeded'')\<rparr>"

definition wait_times_out :: world where
  "wait_times_out =
     ok_world\<lparr>waitForSelector_result := Some (TimeoutError ''Waiting for selector failed: 10000ms exceeded'')\<rparr>"

definition newPage_fails :: world where
  "newPage_fails = ok_world\<lparr>newPage_result := Some (Error ''Protocol error'')\<rparr>"

definition put_fails :: world where
  "put_fails = ok_world\<lparr>put_result := (\<lambda>name. Inl (Error ''Vercel Blob: access denied''))\<rparr>"

definition zero_put_fails :: world where
  "zero_put_fails = zero_world\<lparr>put_result := (\<lambda>name. Inl (Error ''Vercel Blob: access denied''))\<rparr>"

definition screenshot_fails :: world where
  "screenshot_fails = goto_fails\<lparr>screenshot_result := Inl (Error ''Target closed'')\<rparr>"

definition send_fails :: world where
  "send_fails = ok_world\<lparr>send_result := (\<lambda>n. Some (Error ''Unauthorized''))\<rparr>"

definition goto_and_send_fail :: world where
  "goto_and_send_fail = goto_fails\<lparr>send_result := (\<lambda>n. Some (Error ''Unauthorized''))\<rparr>"

definition no_recipient :: world where
  "no_recipient = ok_world\<lparr>RECIPIENT_EMAIL := None\<rparr>"

section \<open>Extraction of the rows\<close>















lemma id_matches_quirks:
  "id_matches True RESULTS_ID ''maincontent_gvbuscaractxcat''"
  "\<not> id_matches False RESULTS_ID ''maincontent_gvbuscaractxcat''"
  by (simp_all add: id_matches_def RESULTS_ID_def ascii_lower_def)


lemma evaluate_rows_sample_page:
  "evaluate_rows sample_page =
     [\<lparr>polideportivo = js ''Colinas'', categoria = js ''DEPORTE'', actividad = js ''BASQUET'',
       subcategoria = js ''Sub 13'', horario = js ''Lun 18:00''\<rparr>,
      \<lparr>polideportivo = js ''Libertad'', categoria = [], actividad = [],
       subcategoria = [], horario = []\<rparr>]"
  by (simp add: evaluate_rows_def sample_page_def sample_context_def sample_groups_def
      id_matches_def RESULTS_ID_def header_row_def full_row_def short_row_def td_def
      extract_row_def cell_def trim_def is_ws_def js_def)

lemma evaluate_rows_sample_page_nonempty: "evaluate_rows sample_page \<noteq> []"
  by (simp add: evaluate_rows_sample_page)

lemma evaluate_rows_empty_page: "evaluate_rows empty_page = []"
  by (simp add: evaluate_rows_def empty_page_def sample_context_def id_matches_def
      RESULTS_ID_def header_row_def)




section \<open>The methods, call by call\<close>

lemma saveData_eq:
  "saveData w regs s = (put_result w BLOB_FILENAME, s\<lparr>trace := trace s @ save_events w regs\<rparr>)"
  by (cases "put_result w BLOB_FILENAME")
     (simp_all add: saveData_def bind_def perform_def try_catch_def ret_def throw_def
        save_events_def)

lemma sendEmail_eq:
  "sendEmail w regs url s =
     (if configured w then outcome (send_result w (length (sent (trace s)))) else Inr (),
      s\<lparr>trace := trace s @ notify_events w regs url\<rparr>)"
  by (cases "send_result w (length (filter is_Send (trace s)))")
     (auto simp add: sendEmail_def bind_def perform_def try_catch_def ret_def throw_def
       sgMail_send_def configured_def sent_def notify_events_def)

lemma capture_eq: "capture w s = (Inr (), s\<lparr>trace := trace s @ capture_events w\<rparr>)"
  by (cases "screenshot_result w"; cases "put_result w ''error-screenshot.png''")
     (simp_all add: capture_def capture_events_def bind_def perform_def try_catch_def ret_def)

lemma scrape_catch_eq:
  "scrape_catch w e s =
     (if page s then sendEmail w [] None (s\<lparr>trace := trace s @ capture_events w\<rparr>)
      else (Inr (), s))"
  by (simp add: scrape_catch_def bind_def read_page_def capture_eq ret_def)

lemma extraction_run:
  "(\<exists>es. trace (snd (extraction w s)) = trace s @ NewPage # es \<and> list_all is_step es)
   \<and> page (snd (extraction w s)) = (page s \<or> newPage_result w = None)
   \<and> fst (extraction w s) = fst (extraction w s0)
   \<and> (\<forall>regs. fst (extraction w s) = Inr regs \<longrightarrow> newPage_result w = None)"
  unfolding extraction_def bind_def perform_def assign_page_def
  apply (cases "newPage_result w"; simp)
  apply (cases "goto_result w"; simp)
  apply (cases "click_radio_result w"; simp)
  apply (cases "select_categoria_result w"; simp)
  apply (cases "select_actividad_result w"; simp)
  apply (cases "search_result w"; simp)
  apply (cases "waitForSelector_result w"; simp)
  done

text \<open>
  C7.  When the recipient or the sender address is missing from the environment
  (undefined or empty), \<open>sendEmail\<close> returns normally, whatever registrations and blob URL
  it is given, and makes no call at all after its entry: \<open>sgMail.send\<close> is not called.
\<close>

theorem sendEmail_without_addresses:
  assumes "\<not> truthy (RECIPIENT_EMAIL w) \<or> \<not> truthy (FROM_EMAIL w)"
  shows "fst (sendEmail w registrations blobUrl s) = Inr () \<and>
         trace (snd (sendEmail w registrations blobUrl s)) =
           trace s @ [Invoke_sendEmail registrations blobUrl] \<and>
         sent (trace (snd (sendEmail w registrations blobUrl s))) = sent (trace s)"
  using assms by (auto simp: sendEmail_eq configured_def notify_events_def sent_def)

text \<open>Witness for C7: no recipient address, two registrations.\<close>

theorem sendEmail_without_addresses_witness:
  "\<not> truthy (RECIPIENT_EMAIL no_recipient) \<and>
   fst (sendEmail no_recipient (evaluate_rows sample_page) None initial) = Inr () \<and>
   trace (snd (sendEmail no_recipient (evaluate_rows sample_page) None initial)) =
     [Invoke_sendEmail (evaluate_rows sample_page) None] \<and>
   sent (trace (snd (sendEmail no_recipient (evaluate_rows sample_page) None initial))) = []"
  using sendEmail_without_addresses[of no_recipient "evaluate_rows sample_page" None initial]
  by (simp add: no_recipient_def ok_world_def initial_def sent_def)

section \<open>Runs\<close>

lemma sent_steps: "list_all is_step es \<Longrightarrow> sent es = []"
  by (induction es) (auto simp: sent_def elim: is_step.elims)

lemma sent_capture [simp]: "sent (capture_events w) = []"
  by (simp add: sent_def capture_events_def split: sum.splits)

lemma sent_save [simp]: "sent (save_events w regs) = []"
  by (simp add: sent_def save_events_def)

lemma sent_notify [simp]:
  "sent (notify_events w regs url) = (if configured w then [Send (msg w regs url)] else [])"
  by (simp add: sent_def notify_events_def)

lemma sent_append [simp]: "sent (xs @ ys) = sent xs @ sent ys"
  by (simp add: sent_def)

lemma sent_Close [simp]: "sent [Close] = []"
  by (simp add: sent_def)

lemma sent_extraction [simp]: "sent (trace (snd (extraction w launched))) = []"
proof -
  obtain es where "trace (snd (extraction w launched)) = trace launched @ NewPage # es"
    "list_all is_step es"
    using extraction_run[of w launched] by auto
  then show ?thesis
    using sent_steps[of es] by (simp add: launched_def) (simp add: sent_def)
qed

lemma scrape_launched:
  assumes "launch_result w = None"
  shows "fst (scrape w initial) = run_result w" "run_trace w = run_events w"
proof -
  obtain r s2 where X: "extraction w launched = (r, s2)" by (cases "extraction w launched")
  have S: "sent (trace s2) = []" using sent_extraction[of w] X by simp
  have P: "\<And>regs. r = Inr regs \<Longrightarrow> page s2"
    using extraction_run[of w launched] X by auto
  have U: "scrape w initial =
     try_finally (try_catch (scrape_try w) (scrape_catch w))
       (perform Close (outcome (close_result w))) launched"
    using assms
    by (simp add: scrape_def bind_def perform_def assign_page_def initial_def launched_def)
  show "fst (scrape w initial) = run_result w"
    unfolding U run_result_def try_finally_def try_catch_def scrape_try_def bind_def perform_def
    using S P
    by (cases "close_result w")
       (auto simp: X saveData_eq sendEmail_eq scrape_catch_eq split: sum.splits)
  show "run_trace w = run_events w"
    unfolding run_trace_def U run_events_def try_finally_def try_catch_def scrape_try_def
      bind_def perform_def
    using S P
    by (cases "close_result w")
       (auto simp: X saveData_eq sendEmail_eq scrape_catch_eq split: sum.splits)
qed

lemma inner_steps: "list_all is_step es \<Longrightarrow> list_all is_inner es"
  by (induction es) (auto elim: is_step.elims)

lemma inner_capture: "list_all is_inner (capture_events w)"
  by (simp add: capture_events_def split: sum.splits)

lemma inner_notify: "list_all is_inner (notify_events w regs url)"
  by (simp add: notify_events_def)

lemma inner_save: "list_all is_inner (save_events w regs)"
  by (simp add: save_events_def)

lemma run_events_shape: "\<exists>es. run_events w = Launch # es @ [Close] \<and> list_all is_inner es"
proof -
  obtain r s2 where X: "extraction w launched = (r, s2)" by (cases "extraction w launched")
  obtain es where es: "trace s2 = Launch # NewPage # es" "list_all is_step es"
    using extraction_run[of w launched] X by (auto simp: launched_def)
  show ?thesis
    unfolding run_events_def
    using es(1) inner_steps[OF es(2)] inner_capture[of w] inner_notify[of w] inner_save[of w]
    by (auto simp: X split: sum.splits)
qed

text \<open>
  C9.  In every run whose browser was launched, whatever the outcome of every later call,
  the launch is the first call, the close of the browser is the last one, and no other
  call of the run launches or closes a browser: the session is closed exactly once,
  after all other steps.
\<close>

theorem browser_closed_once_at_the_end:
  assumes "launch_result w = None"
  shows "\<exists>es. run_trace w = Launch # es @ [Close] \<and> Close \<notin> set es \<and> Launch \<notin> set es"
proof -
  obtain es where es: "run_events w = Launch # es @ [Close]" "list_all is_inner es"
    using run_events_shape by blast
  have "Close \<notin> set es" "Launch \<notin> set es"
    using es(2) by (auto simp: list_all_iff)
  then show ?thesis
    using es(1) scrape_launched(2)[OF assms] by auto
qed

text \<open>Witness for C9: the world in which every call succeeds.\<close>

theorem browser_closed_once_at_the_end_witness:
  "launch_result ok_world = None \<and>
   (\<exists>es. run_trace ok_world = Launch # es @ [Close] \<and> Close \<notin> set es \<and> Launch \<notin> set es)"
  using browser_closed_once_at_the_end[of ok_world] by (simp add: ok_world_def)

lemma scrape_try_throws:
  assumes "fst (scrape_try w launched) = Inl err" "newPage_result w = None"
  shows "\<exists>pre post. run_events w = pre @ capture_events w @ Invoke_sendEmail [] None # post"
proof -
  obtain r s2 where X: "extraction w launched = (r, s2)" by (cases "extraction w launched")
  have P: "page s2" using extraction_run[of w launched] X assms(2) by auto
  have S: "sent (trace s2) = []" using sent_extraction[of w] X by simp
  show ?thesis
  proof (cases r)
    case (Inl e)
    then show ?thesis
      using P by (simp add: run_events_def X notify_events_def) blast
  next
    case (Inr regs)
    show ?thesis
    proof (cases "put_result w BLOB_FILENAME")
      case (Inl e)
      then show ?thesis
        using Inr by (simp add: run_events_def X notify_events_def)
          (metis append.assoc)
    next
      case url: (Inr url)
      have "configured w \<and> send_result w 0 \<noteq> None"
        using assms(1) Inr url S
        by (cases "send_result w 0")
           (auto simp: scrape_try_def bind_def X saveData_eq sendEmail_eq split: if_splits)
      then show ?thesis
        using Inr url
        by (simp add: run_events_def X) (metis append.assoc append_Cons notify_events_def)
    qed
  qed
qed

text \<open>
  C6.  The screenshot block never throws, whatever the outcome of the screenshot and of
  its upload.  In a run whose page was opened and whose \<open>try\<close> block throws, the calls
  of the screenshot block are followed at once by the entry into \<open>sendEmail\<close> with an
  empty registration list and no blob URL; this holds in particular when the screenshot
  or its upload fails.
\<close>

theorem capture_failure_does_not_stop_notification:
  assumes "launch_result w = None" and "newPage_result w = None"
    and "fst (scrape_try w launched) = Inl err"
  shows "fst (capture w s) = Inr () \<and>
         (\<exists>pre post. run_trace w = pre @ capture_events w @ Invoke_sendEmail [] None # post)"
  using scrape_try_throws[OF assms(3,2)] scrape_launched(2)[OF assms(1)]
  by (simp add: capture_eq)

text \<open>Witness for C6: the navigation times out and the screenshot fails.\<close>

theorem capture_failure_does_not_stop_notification_witness:
  "launch_result screenshot_fails = None \<and> newPage_result screenshot_fails = None
   \<and> fst (scrape_try screenshot_fails launched)
       = Inl (TimeoutError ''Navigation timeout of 60000 ms exceeded'')
   \<and> screenshot_result screenshot_fails = Inl (Error ''Target closed'')
   \<and> fst (capture screenshot_fails launched) = Inr ()
   \<and> (\<exists>pre post. run_trace screenshot_fails =
          pre @ [Screenshot] @ Invoke_sendEmail [] None # post)"
  using capture_failure_does_not_stop_notification[of screenshot_fails
      "TimeoutError ''Navigation timeout of 60000 ms exceeded''" launched]
  by (simp add: screenshot_fails_def goto_fails_def ok_world_def launched_def scrape_try_def
      extraction_def bind_def perform_def assign_page_def capture_events_def)

section \<open>Persisting and notifying\<close>

lemma steps_not_invoke:
  "list_all is_step es \<Longrightarrow> Invoke_sendEmail regs u \<notin> set es \<and> Send m \<notin> set es"
  by (induction es) (auto elim: is_step.elims)

lemma capture_not_invoke: "Invoke_sendEmail regs u \<notin> set (capture_events w)"
  by (simp add: capture_events_def split: sum.splits)

lemma capture_not_send: "Send m \<notin> set (capture_events w)"
  by (simp add: capture_events_def split: sum.splits)

lemma msg_nonempty_differs:
  "regs \<noteq> [] \<Longrightarrow> msg w regs u \<noteq> msg w' [] u'"
  by (simp add: msg_def subject_def js_def)

lemma msg_empty: "msg w [] u = msg w [] None"
  by (simp add: msg_def subject_def htmlContent_def)

lemma msg_data_is_empty: "(msg w regs u = msg w [] None) = (regs = [])"
  using msg_nonempty_differs[of regs w u w None] msg_empty[of w u] by auto

lemma Send_in_sent: "(Send m \<in> set t) = (Send m \<in> set (sent t))"
  by (simp add: sent_def)

lemma run_after_storage_error:
  assumes "launch_result w = None" and "fst (extraction w launched) = Inr regs"
    and "put_result w BLOB_FILENAME = Inl e"
  shows "run_trace w =
           trace (snd (extraction w launched)) @ save_events w regs @ capture_events w
           @ notify_events w [] None @ [Close]"
    and "sent (run_trace w) = (if configured w then [Send (msg w [] None)] else [])"
    and "fst (scrape w initial) =
           (case close_result w of
              Some c \<Rightarrow> Inl c
            | None \<Rightarrow> if configured w then outcome (send_result w 0) else Inr ())"
proof -
  obtain s2 where X: "extraction w launched = (Inr regs, s2)"
    using assms(2) by (cases "extraction w launched") auto
  show T: "run_trace w =
      trace (snd (extraction w launched)) @ save_events w regs @ capture_events w
      @ notify_events w [] None @ [Close]"
    using scrape_launched(2)[OF assms(1)] assms(3) by (simp add: run_events_def X)
  show "sent (run_trace w) = (if configured w then [Send (msg w [] None)] else [])"
    using sent_extraction[of w] by (simp add: T X)
  show "fst (scrape w initial) =
           (case close_result w of
              Some c \<Rightarrow> Inl c
            | None \<Rightarrow> if configured w then outcome (send_result w 0) else Inr ())"
    by (cases "close_result w")
       (simp_all add: scrape_launched(1)[OF assms(1)] run_result_def X assms(3))
qed

text \<open>
  C4, as amended.  In a run whose steps 1 to 6 return the registrations \<open>regs\<close> and
  whose upload of the snapshot is rejected with \<open>e\<close>, the sequence of \<open>saveData\<close> and
  \<open>sendEmail\<close> throws \<open>e\<close>, and \<open>sendEmail\<close> is never entered with the registrations and
  a blob URL.  The error is caught by the \<open>catch\<close> clause of the run: the calls after
  the upload are those of the screenshot block and of \<open>sendEmail\<close> with an empty list,
  so that with both addresses configured exactly one message is handed to
  \<open>sgMail.send\<close>, the message for an empty list.  A message made from \<open>regs\<close> is sent
  exactly when the addresses are configured and \<open>regs\<close> is empty: it is then that same
  message.  The run completes as the close of the browser and that send do, and does
  not throw \<open>e\<close>.
\<close>

theorem storage_error_sends_the_no_results_message:
  assumes "launch_result w = None" and "fst (extraction w launched) = Inr regs"
    and "put_result w BLOB_FILENAME = Inl e"
  shows "fst (bind (saveData w regs) (\<lambda>blobUrl. sendEmail w regs (Some blobUrl)) s) = Inl e
       \<and> run_trace w =
           trace (snd (extraction w launched)) @ save_events w regs @ capture_events w
           @ notify_events w [] None @ [Close]
       \<and> (\<forall>u. Invoke_sendEmail regs (Some u) \<notin> set (run_trace w))
       \<and> sent (run_trace w) = (if configured w then [Send (msg w [] None)] else [])
       \<and> (\<forall>u. (Send (msg w regs u) \<in> set (run_trace w)) = (configured w \<and> regs = []))
       \<and> fst (scrape w initial) =
           (case close_result w of
              Some c \<Rightarrow> Inl c
            | None \<Rightarrow> if configured w then outcome (send_result w 0) else Inr ())"
proof -
  obtain s2 where X: "extraction w launched = (Inr regs, s2)"
    using assms(2) by (cases "extraction w launched") auto
  obtain es where es: "trace s2 = Launch # NewPage # es" "list_all is_step es"
    using extraction_run[of w launched] X by (auto simp: launched_def)
  note R = run_after_storage_error[OF assms]
  have T: "run_trace w =
      trace s2 @ save_events w regs @ capture_events w @ notify_events w [] None @ [Close]"
    using R(1) by (simp add: X)
  have 1: "fst (bind (saveData w regs) (\<lambda>blobUrl. sendEmail w regs (Some blobUrl)) s) = Inl e"
    using assms(3) by (simp add: bind_def saveData_eq)
  have 2: "Invoke_sendEmail regs (Some u) \<notin> set (run_trace w)" for u
    using steps_not_invoke[OF es(2)] capture_not_invoke[of regs "Some u" w]
    by (auto simp: T es(1) save_events_def notify_events_def)
  have 3: "(Send (msg w regs u) \<in> set (run_trace w)) = (configured w \<and> regs = [])" for u
    unfolding Send_in_sent[of _ "run_trace w"] R(2)
    by (auto simp add: msg_data_is_empty)
  show ?thesis using 1 2 3 R by blast
qed

text \<open>Witness for C4: the upload is refused after two rows were read.\<close>

theorem storage_error_sends_the_no_results_message_witness:
  "launch_result put_fails = None
   \<and> fst (extraction put_fails launched) = Inr (evaluate_rows sample_page)
   \<and> put_result put_fails BLOB_FILENAME = Inl (Error ''Vercel Blob: access denied'')
   \<and> fst (bind (saveData put_fails (evaluate_rows sample_page))
              (\<lambda>blobUrl. sendEmail put_fails (evaluate_rows sample_page) (Some blobUrl)) launched)
       = Inl (Error ''Vercel Blob: access denied'')
   \<and> sent (run_trace put_fails) = [Send (msg put_fails [] None)]
   \<and> evaluate_rows sample_page \<noteq> []
   \<and> (\<forall>u. Send (msg put_fails (evaluate_rows sample_page) u) \<notin> set (run_trace put_fails))
   \<and> fst (scrape put_fails initial) = Inr ()"
proof -
  note ne = evaluate_rows_sample_page_nonempty
  have h1: "launch_result put_fails = None"
    by (simp add: put_fails_def ok_world_def)
  have h2: "fst (extraction put_fails launched) = Inr (evaluate_rows sample_page)"
    by (simp add: extraction_def bind_def perform_def assign_page_def launched_def
        put_fails_def ok_world_def)
  have h3: "put_result put_fails BLOB_FILENAME = Inl (Error ''Vercel Blob: access denied'')"
    by (simp add: put_fails_def)
  have c: "configured put_fails"
    by (simp add: put_fails_def ok_world_def configured_def js_def)
  have k: "close_result put_fails = None" "send_result put_fails 0 = None"
    by (simp_all add: put_fails_def ok_world_def)
  note T = storage_error_sends_the_no_results_message[OF h1 h2 h3, of launched]
  from T have "sent (run_trace put_fails) =
      (if configured put_fails then [Send (msg put_fails [] None)] else [])"
    by blast
  with c have s: "sent (run_trace put_fails) = [Send (msg put_fails [] None)]"
    by simp
  from T have "\<forall>u. (Send (msg put_fails (evaluate_rows sample_page) u) \<in> set (run_trace put_fails))
      = (configured put_fails \<and> evaluate_rows sample_page = [])"
    by blast
  with ne have n: "\<forall>u. Send (msg put_fails (evaluate_rows sample_page) u) \<notin> set (run_trace put_fails)"
    by simp
  from T have "fst (scrape put_fails initial) =
      (case close_result put_fails of
         Some c \<Rightarrow> Inl c
       | None \<Rightarrow> if configured put_fails then outcome (send_result put_fails 0) else Inr ())"
    by blast
  with c k have f: "fst (scrape put_fails initial) = Inr ()"
    by simp
  show ?thesis
    using T ne h1 h2 h3 s n f by blast
qed

text \<open>
  C5, as amended.  With both addresses configured, the browser launched, the page opened
  and the first call of \<open>sgMail.send\<close> accepted, a run calls \<open>sgMail.send\<close> exactly once,
  whether steps 1 to 6 return rows, return none or fail, and whether or not the upload
  of the snapshot succeeds.
\<close>

theorem one_send_per_run:
  assumes "configured w" and "launch_result w = None" and "newPage_result w = None"
    and "send_result w 0 = None"
  shows "length (sent (run_trace w)) = 1"
proof -
  obtain r s2 where X: "extraction w launched = (r, s2)" by (cases "extraction w launched")
  have P: "page s2" using extraction_run[of w launched] X assms(3) by auto
  have S: "sent (trace s2) = []" using sent_extraction[of w] X by simp
  show ?thesis
    using assms(1,4) P S
    by (simp add: scrape_launched(2)[OF assms(2)] run_events_def X split: sum.splits)
qed

text \<open>Witness for C5: the world in which every call succeeds.\<close>

theorem one_send_per_run_witness:
  "configured ok_world \<and> launch_result ok_world = None \<and> newPage_result ok_world = None
   \<and> send_result ok_world 0 = None \<and> length (sent (run_trace ok_world)) = 1"
proof -
  have h: "configured ok_world" "launch_result ok_world = None"
    "newPage_result ok_world = None" "send_result ok_world 0 = None"
    by (simp_all add: ok_world_def configured_def js_def)
  show ?thesis using one_send_per_run[OF h] h by blast
qed

lemma extraction_newPage_fails:
  "extraction newPage_fails launched =
     (Inl (Error ''Protocol error''), \<lparr>trace = [Launch, NewPage], page = False\<rparr>)"
  by (simp add: extraction_def bind_def perform_def launched_def newPage_fails_def ok_world_def)

lemma run_trace_newPage_fails: "run_trace newPage_fails = [Launch, NewPage, Close]"
proof -
  have "launch_result newPage_fails = None" by (simp add: newPage_fails_def ok_world_def)
  from scrape_launched(2)[OF this] show ?thesis
    by (simp add: run_events_def extraction_newPage_fails)
qed

lemma sent_run_no_recipient: "sent (run_trace no_recipient) = []"
proof -
  have l: "launch_result no_recipient = None" by (simp add: no_recipient_def ok_world_def)
  have c: "\<not> configured no_recipient" by (simp add: no_recipient_def configured_def)
  obtain r s2 where X: "extraction no_recipient launched = (r, s2)"
    by (cases "extraction no_recipient launched")
  have S: "sent (trace s2) = []" using sent_extraction[of no_recipient] X by simp
  show ?thesis
    using c S by (simp add: scrape_launched(2)[OF l] run_events_def X split: sum.splits)
qed

lemma sent_run_send_fails:
  "sent (run_trace send_fails) =
     [Send (msg send_fails (evaluate_rows sample_page)
              (Some (js ''https://blob.example/'' @ js BLOB_FILENAME))),
      Send (msg send_fails [] None)]"
proof -
  have l: "launch_result send_fails = None" by (simp add: send_fails_def ok_world_def)
  have c: "configured send_fails" "send_result send_fails 0 \<noteq> None"
    "put_result send_fails BLOB_FILENAME = Inr (js ''https://blob.example/'' @ js BLOB_FILENAME)"
    by (simp_all add: send_fails_def ok_world_def configured_def js_def)
  obtain r s2 where X: "extraction send_fails launched = (r, s2)"
    by (cases "extraction send_fails launched")
  have r: "r = Inr (evaluate_rows sample_page)"
    using X by (simp add: extraction_def bind_def perform_def assign_page_def
        send_fails_def ok_world_def)
  have S: "sent (trace s2) = []" using sent_extraction[of send_fails] X by simp
  show ?thesis
    using c S by (simp add: scrape_launched(2)[OF l] run_events_def X r)
qed

text \<open>
  C5 as stated fails: a run whose page cannot be opened and a run without a recipient
  address call \<open>sgMail.send\<close> not at all, and a run whose sends are rejected calls it twice,
  once with the data and once from the \<open>catch\<close> clause.
\<close>

theorem not_one_send_per_run:
  "length (sent (run_trace newPage_fails)) = 0
   \<and> length (sent (run_trace no_recipient)) = 0
   \<and> length (sent (run_trace send_fails)) = 2"
  by (simp add: run_trace_newPage_fails sent_run_no_recipient sent_run_send_fails)
     (simp add: sent_def)

lemma set_sent_failed_run:
  assumes "launch_result w = None" "fst (extraction w launched) = Inl e" "newPage_result w = None"
  shows "sent (run_trace w) = (if configured w then [Send (msg w [] None)] else [])"
proof -
  obtain s2 where X: "extraction w launched = (Inl e, s2)"
    using assms(2) by (cases "extraction w launched") auto
  have P: "page s2" using extraction_run[of w launched] X assms(3) by auto
  have S: "sent (trace s2) = []" using sent_extraction[of w] X by simp
  show ?thesis
    using P S by (simp add: scrape_launched(2)[OF assms(1)] run_events_def X)
qed

lemma set_sent_empty_run:
  assumes "launch_result w = None" "fst (extraction w launched) = Inr []"
  shows "set (sent (run_trace w)) = (if configured w then {Send (msg w [] None)} else {})"
proof -
  obtain s2 where X: "extraction w launched = (Inr [], s2)"
    using assms(2) by (cases "extraction w launched") auto
  have S: "sent (trace s2) = []" using sent_extraction[of w] X by simp
  show ?thesis
    using S msg_empty[of w]
    by (auto simp add: scrape_launched(2)[OF assms(1)] run_events_def X split: sum.splits)
qed

lemma msg_addresses:
  "RECIPIENT_EMAIL w1 = RECIPIENT_EMAIL w2 \<Longrightarrow> FROM_EMAIL w1 = FROM_EMAIL w2 \<Longrightarrow>
   msg w1 [] u1 = msg w2 [] u2"
  by (simp add: msg_def htmlContent_def)

text \<open>
  C1, as amended.  A run whose steps 1 to 6 return no registration and a run whose steps
  1 to 6 fail after the page was opened, under the same two addresses, hand the same
  messages to \<open>sgMail.send\<close>: the message for an empty list, with the subject and the body
  of the "no results" branch, which depend neither on the blob URL nor on the reason for
  which the list is empty.  Only a non-empty list is rendered differently, in subject
  and in body.
\<close>

theorem empty_and_failed_runs_send_the_same_message:
  assumes "launch_result w1 = None" and "fst (extraction w1 launched) = Inr []"
    and "launch_result w2 = None" and "fst (extraction w2 launched) = Inl e"
    and "newPage_result w2 = None"
    and "RECIPIENT_EMAIL w1 = RECIPIENT_EMAIL w2" and "FROM_EMAIL w1 = FROM_EMAIL w2"
  shows "set (sent (run_trace w1)) = set (sent (run_trace w2))
       \<and> (\<forall>m. Send m \<in> set (sent (run_trace w1)) \<longrightarrow>
              msg_subject m = subject [] \<and> msg_html m = htmlEmpty)
       \<and> (\<forall>regs u. regs \<noteq> [] \<longrightarrow>
              msg_subject (msg w1 regs u) \<noteq> subject [] \<and> msg_html (msg w1 regs u) \<noteq> htmlEmpty)"
proof -
  have c: "configured w1 = configured w2"
    using assms(6,7) by (simp add: configured_def)
  have 1: "set (sent (run_trace w1)) = set (sent (run_trace w2))"
    using set_sent_empty_run[OF assms(1,2)] set_sent_failed_run[OF assms(3,4,5)] c
      msg_addresses[OF assms(6,7), of None None]
    by simp
  have 2: "msg_subject m = subject [] \<and> msg_html m = htmlEmpty"
    if "Send m \<in> set (sent (run_trace w1))" for m
    using that set_sent_empty_run[OF assms(1,2)]
    by (auto simp: msg_def htmlContent_def split: if_splits)
  have 3: "msg_subject (msg w1 regs u) \<noteq> subject [] \<and> msg_html (msg w1 regs u) \<noteq> htmlEmpty"
    if "regs \<noteq> []" for regs u
    using that
    by (simp add: msg_def subject_def htmlContent_def htmlTable_def htmlEmpty_def js_def)
  show ?thesis using 1 2 3 by blast
qed

lemma fst_extraction_goto_fails:
  "fst (extraction goto_fails s) = Inl (TimeoutError ''Navigation timeout of 60000 ms exceeded'')"
  by (simp add: extraction_def bind_def perform_def assign_page_def goto_fails_def ok_world_def)

lemma fst_extraction_zero_world: "fst (extraction zero_world s) = Inr []"
  by (simp add: extraction_def bind_def perform_def assign_page_def zero_world_def ok_world_def
      evaluate_rows_empty_page)

lemma sample_worlds_launch:
  "launch_result zero_world = None" "launch_result goto_fails = None"
  "launch_result wait_times_out = None" "launch_result goto_and_send_fail = None"
  by (simp_all add: zero_world_def goto_fails_def wait_times_out_def goto_and_send_fail_def
      ok_world_def)

lemma sample_worlds_configured:
  "configured zero_world" "configured goto_fails" "configured wait_times_out"
  "configured goto_and_send_fail"
  by (simp_all add: zero_world_def goto_fails_def wait_times_out_def goto_and_send_fail_def
      ok_world_def configured_def js_def)

lemma sent_run_zero_world: "sent (run_trace zero_world) = [Send (msg goto_fails [] None)]"
proof -
  obtain s2 where X: "extraction zero_world launched = (Inr [], s2)"
    using fst_extraction_zero_world[of launched] by (cases "extraction zero_world launched") auto
  have S: "sent (trace s2) = []" using sent_extraction[of zero_world] X by simp
  have p: "put_result zero_world BLOB_FILENAME = Inr (js ''https://blob.example/'' @ js BLOB_FILENAME)"
    "send_result zero_world 0 = None"
    by (simp_all add: zero_world_def ok_world_def)
  have m: "msg zero_world [] u = msg goto_fails [] None" for u
    by (rule msg_addresses) (simp_all add: zero_world_def goto_fails_def)
  show ?thesis
    using S p sample_worlds_configured(1) m
    by (simp add: scrape_launched(2)[OF sample_worlds_launch(1)] run_events_def X)
qed

text \<open>
  C4 as stated fails: a rejected upload does not abort the notification of the run,
  and the run does not fail.  With two rows read and the upload refused, the run
  completes normally and hands one message to \<open>sgMail.send\<close>, the message for an empty
  list; with no row read and the upload refused, the run sends the very message that
  it sends when the upload succeeds.
\<close>

theorem storage_error_still_notifies:
  "fst (extraction put_fails launched) = Inr (evaluate_rows sample_page)
   \<and> put_result put_fails BLOB_FILENAME = Inl (Error ''Vercel Blob: access denied'')
   \<and> fst (scrape put_fails initial) = Inr ()
   \<and> sent (run_trace put_fails) = [Send (msg put_fails [] None)]
   \<and> msg_subject (msg put_fails [] None) = subject []
   \<and> msg_html (msg put_fails [] None) = htmlEmpty
   \<and> fst (extraction zero_put_fails launched) = Inr []
   \<and> put_result zero_put_fails BLOB_FILENAME = Inl (Error ''Vercel Blob: access denied'')
   \<and> sent (run_trace zero_put_fails) = sent (run_trace zero_world)"
proof -
  have h1: "launch_result put_fails = None" "launch_result zero_put_fails = None"
    by (simp_all add: put_fails_def zero_put_fails_def zero_world_def ok_world_def)
  have h2: "fst (extraction put_fails launched) = Inr (evaluate_rows sample_page)"
    by (simp add: extraction_def bind_def perform_def assign_page_def launched_def
        put_fails_def ok_world_def)
  have h3: "put_result put_fails BLOB_FILENAME = Inl (Error ''Vercel Blob: access denied'')"
    "put_result zero_put_fails BLOB_FILENAME = Inl (Error ''Vercel Blob: access denied'')"
    by (simp_all add: put_fails_def zero_put_fails_def)
  have h4: "fst (extraction zero_put_fails launched) = Inr []"
    by (simp add: extraction_def bind_def perform_def assign_page_def launched_def
        zero_put_fails_def zero_world_def ok_world_def evaluate_rows_empty_page)
  have c: "configured put_fails" "configured zero_put_fails"
    by (simp_all add: put_fails_def zero_put_fails_def zero_world_def ok_world_def
        configured_def js_def)
  have k: "close_result put_fails = None" "send_result put_fails 0 = None"
    by (simp_all add: put_fails_def ok_world_def)
  have f: "fst (scrape put_fails initial) = Inr ()"
    using run_after_storage_error(3)[OF h1(1) h2 h3(1)] c(1) k by simp
  have s: "sent (run_trace put_fails) = [Send (msg put_fails [] None)]"
    using run_after_storage_error(2)[OF h1(1) h2 h3(1)] c(1) by simp
  have m: "msg zero_put_fails [] None = msg goto_fails [] None"
    by (rule msg_addresses)
       (simp_all add: zero_put_fails_def zero_world_def goto_fails_def)
  have z: "sent (run_trace zero_put_fails) = sent (run_trace zero_world)"
    using run_after_storage_error(2)[OF h1(2) h4 h3(2)] c(2)
    by (simp add: sent_run_zero_world m)
  have e: "msg_subject (msg put_fails [] None) = subject []"
    "msg_html (msg put_fails [] None) = htmlEmpty"
    by (simp_all add: msg_def htmlContent_def)
  show ?thesis using h2 h3 h4 f s z e by blast
qed

text \<open>
  C1 as stated fails: the run over an empty result table and the run whose navigation
  times out each call \<open>sgMail.send\<close> once, with one and the same message.
\<close>

theorem empty_and_failed_runs_indistinguishable:
  "fst (extraction zero_world launched) = Inr []
   \<and> fst (extraction goto_fails launched)
       = Inl (TimeoutError ''Navigation timeout of 60000 ms exceeded'')
   \<and> sent (run_trace zero_world) = [Send (msg goto_fails [] None)]
   \<and> sent (run_trace goto_fails) = [Send (msg goto_fails [] None)]"
proof -
  have n: "newPage_result goto_fails = None" by (simp add: goto_fails_def ok_world_def)
  show ?thesis
    using set_sent_failed_run[OF sample_worlds_launch(2) fst_extraction_goto_fails n]
      sample_worlds_configured(2) sent_run_zero_world
    by (simp add: fst_extraction_goto_fails fst_extraction_zero_world)
qed

text \<open>Witness for C1: the same two runs.\<close>

theorem empty_and_failed_runs_send_the_same_message_witness:
  "launch_result zero_world = None \<and> fst (extraction zero_world launched) = Inr []
   \<and> launch_result goto_fails = None
   \<and> fst (extraction goto_fails launched)
       = Inl (TimeoutError ''Navigation timeout of 60000 ms exceeded'')
   \<and> newPage_result goto_fails = None
   \<and> RECIPIENT_EMAIL zero_world = RECIPIENT_EMAIL goto_fails
   \<and> FROM_EMAIL zero_world = FROM_EMAIL goto_fails
   \<and> set (sent (run_trace zero_world)) = set (sent (run_trace goto_fails))
   \<and> Send (msg goto_fails [] None) \<in> set (sent (run_trace zero_world))
   \<and> msg_subject (msg goto_fails [] None) = subject []
   \<and> msg_html (msg goto_fails [] None) = htmlEmpty
   \<and> evaluate_rows sample_page \<noteq> []
   \<and> msg_subject (msg zero_world (evaluate_rows sample_page) None) \<noteq> subject []
   \<and> msg_html (msg zero_world (evaluate_rows sample_page) None) \<noteq> htmlEmpty"
proof -
  have n: "newPage_result goto_fails = None" by (simp add: goto_fails_def ok_world_def)
  have a: "RECIPIENT_EMAIL zero_world = RECIPIENT_EMAIL goto_fails"
    "FROM_EMAIL zero_world = FROM_EMAIL goto_fails"
    by (simp_all add: zero_world_def goto_fails_def)
  note ne = evaluate_rows_sample_page_nonempty
  have m: "Send (msg goto_fails [] None) \<in> set (sent (run_trace zero_world))"
    by (simp add: sent_run_zero_world)
  show ?thesis
    using empty_and_failed_runs_send_the_same_message[OF sample_worlds_launch(1)
        fst_extraction_zero_world sample_worlds_launch(2) fst_extraction_goto_fails n a]
      sample_worlds_launch(1,2) fst_extraction_zero_world[of launched]
      fst_extraction_goto_fails[of launched] n a ne m
    by blast
qed

text \<open>
  C2, as amended.  When steps 1 to 5 succeed and the wait for the results table rejects
  with \<open>e\<close> (the element did not appear within 10 seconds), steps 1 to 6 fail with \<open>e\<close> and
  the run takes the \<open>catch\<close> clause: after the wait come the calls of the screenshot
  block, the entry into \<open>sendEmail\<close> with an empty list and no blob URL (the message of
  the "no results" branch, when the addresses are configured) and the close of the
  browser.  \<open>saveData\<close> is not entered and nothing is uploaded under the snapshot name.
\<close>

theorem results_wait_timeout_takes_failure_path:
  assumes "launch_result w = None" and "newPage_result w = None" and "goto_result w = None"
    and "click_radio_result w = None" and "select_categoria_result w = None"
    and "select_actividad_result w = None" and "search_result w = None"
    and "waitForSelector_result w = Some e"
  shows "fst (extraction w launched) = Inl e
       \<and> run_trace w =
           [Launch, NewPage, Goto URL 60000, EvaluateClick ''#MainContent_TipoBusqueda_1'',
            Delay 3000, Select ''#MainContent_ddlCategoria'' ''1'', Delay 3000,
            Select ''#MainContent_ddlActividad'' ''16'', Delay 3000,
            ClickAndWaitForNavigation ''#MainContent_btnBuscarCat'',
            WaitForSelector ''#MainContent_gvBuscarActXCat'' 10000]
           @ capture_events w @ notify_events w [] None @ [Close]
       \<and> (\<forall>regs. Invoke_saveData regs \<notin> set (run_trace w))
       \<and> (\<forall>body ct. Put BLOB_FILENAME body ct \<notin> set (run_trace w))"
proof -
  have X: "extraction w launched =
     (Inl e, \<lparr>trace = [Launch, NewPage, Goto URL 60000,
            EvaluateClick ''#MainContent_TipoBusqueda_1'',
            Delay 3000, Select ''#MainContent_ddlCategoria'' ''1'', Delay 3000,
            Select ''#MainContent_ddlActividad'' ''16'', Delay 3000,
            ClickAndWaitForNavigation ''#MainContent_btnBuscarCat'',
            WaitForSelector ''#MainContent_gvBuscarActXCat'' 10000], page = True\<rparr>)"
    using assms(2-8)
    by (simp add: extraction_def bind_def perform_def assign_page_def launched_def)
  have T: "run_trace w =
           [Launch, NewPage, Goto URL 60000, EvaluateClick ''#MainContent_TipoBusqueda_1'',
            Delay 3000, Select ''#MainContent_ddlCategoria'' ''1'', Delay 3000,
            Select ''#MainContent_ddlActividad'' ''16'', Delay 3000,
            ClickAndWaitForNavigation ''#MainContent_btnBuscarCat'',
            WaitForSelector ''#MainContent_gvBuscarActXCat'' 10000]
           @ capture_events w @ notify_events w [] None @ [Close]"
    by (simp add: scrape_launched(2)[OF assms(1)] run_events_def X)
  have 3: "Invoke_saveData regs \<notin> set (run_trace w)" for regs
    by (simp add: T capture_events_def notify_events_def split: sum.splits)
  have 4: "Put BLOB_FILENAME body ct \<notin> set (run_trace w)" for body ct
    by (simp add: T capture_events_def notify_events_def BLOB_FILENAME_def split: sum.splits)
  show ?thesis using X T 3 4 by simp
qed

lemma wait_times_out_steps:
  "newPage_result wait_times_out = None" "goto_result wait_times_out = None"
  "click_radio_result wait_times_out = None" "select_categoria_result wait_times_out = None"
  "select_actividad_result wait_times_out = None" "search_result wait_times_out = None"
  "waitForSelector_result wait_times_out
     = Some (TimeoutError ''Waiting for selector failed: 10000ms exceeded'')"
  by (simp_all add: wait_times_out_def ok_world_def)

text \<open>Witness for C2: the wait for the results table times out.\<close>

theorem results_wait_timeout_takes_failure_path_witness:
  "launch_result wait_times_out = None \<and> newPage_result wait_times_out = None
   \<and> goto_result wait_times_out = None \<and> click_radio_result wait_times_out = None
   \<and> select_categoria_result wait_times_out = None
   \<and> select_actividad_result wait_times_out = None \<and> search_result wait_times_out = None
   \<and> waitForSelector_result wait_times_out
       = Some (TimeoutError ''Waiting for selector failed: 10000ms exceeded'')
   \<and> fst (extraction wait_times_out launched)
       = Inl (TimeoutError ''Waiting for selector failed: 10000ms exceeded'')
   \<and> (\<forall>regs. Invoke_saveData regs \<notin> set (run_trace wait_times_out))
   \<and> (\<forall>body ct. Put BLOB_FILENAME body ct \<notin> set (run_trace wait_times_out))"
  using results_wait_timeout_takes_failure_path[OF sample_worlds_launch(3) wait_times_out_steps]
    sample_worlds_launch(3) wait_times_out_steps
  by blast

text \<open>
  C2 as stated fails: when the wait times out, steps 1 to 6 do not return an empty list
  but throw, and the calls of the run hold the screenshot and its upload and no upload
  of a snapshot.
\<close>

theorem results_wait_timeout_persists_nothing:
  "waitForSelector_result wait_times_out
     = Some (TimeoutError ''Waiting for selector failed: 10000ms exceeded'')
   \<and> fst (extraction wait_times_out launched)
       = Inl (TimeoutError ''Waiting for selector failed: 10000ms exceeded'')
   \<and> run_trace wait_times_out =
       [Launch, NewPage, Goto URL 60000, EvaluateClick ''#MainContent_TipoBusqueda_1'',
        Delay 3000, Select ''#MainContent_ddlCategoria'' ''1'', Delay 3000,
        Select ''#MainContent_ddlActividad'' ''16'', Delay 3000,
        ClickAndWaitForNavigation ''#MainContent_btnBuscarCat'',
        WaitForSelector ''#MainContent_gvBuscarActXCat'' 10000,
        Screenshot, Put ''error-screenshot.png'' [0x89, 0x50, 0x4E, 0x47] ''image/png'',
        Invoke_sendEmail [] None, Send (msg wait_times_out [] None), Close]"
proof -
  have l: "launch_result wait_times_out = None" by (simp add: wait_times_out_def ok_world_def)
  have X: "extraction wait_times_out launched =
     (Inl (TimeoutError ''Waiting for selector failed: 10000ms exceeded''),
      \<lparr>trace = [Launch, NewPage, Goto URL 60000,
            EvaluateClick ''#MainContent_TipoBusqueda_1'',
            Delay 3000, Select ''#MainContent_ddlCategoria'' ''1'', Delay 3000,
            Select ''#MainContent_ddlActividad'' ''16'', Delay 3000,
            ClickAndWaitForNavigation ''#MainContent_btnBuscarCat'',
            WaitForSelector ''#MainContent_gvBuscarActXCat'' 10000], page = True\<rparr>)"
    by (simp add: extraction_def bind_def perform_def assign_page_def launched_def
        wait_times_out_def ok_world_def)
  have c: "capture_events wait_times_out =
      [Screenshot, Put ''error-screenshot.png'' [0x89, 0x50, 0x4E, 0x47] ''image/png'']"
    by (simp add: capture_events_def wait_times_out_def ok_world_def)
  show ?thesis
    using sample_worlds_configured(3) wait_times_out_steps(7)
    by (simp add: scrape_launched(2)[OF l] run_events_def X c notify_events_def)
qed

text \<open>
  C8, as amended.  When steps 1 to 6 of a launched run throw \<open>e\<close>, the completion of the
  run does not depend on \<open>e\<close>: the run throws only what the close of the browser throws
  or, when the page was opened and the addresses are configured, what the send of the
  "no results" message throws, and returns normally otherwise.  When the first run
  returns normally, \<open>start\<close> returns normally and its last call installs the timer with a
  period of 6 hours in milliseconds.
\<close>

theorem extraction_error_is_caught:
  assumes "launch_result w = None" and "fst (extraction w launched) = Inl e"
  shows "fst (scrape w initial) =
           (case close_result w of
              Some c \<Rightarrow> Inl c
            | None \<Rightarrow>
                if newPage_result w = None \<and> configured w then outcome (send_result w 0)
                else Inr ())
       \<and> (fst (scrape w initial) = Inr () \<longrightarrow>
            fst (start w initial) = Inr ()
            \<and> trace (snd (start w initial)) = run_trace w @ [SetInterval 21600000])"
proof -
  obtain s2 where X: "extraction w launched = (Inl e, s2)"
    using assms(2) by (cases "extraction w launched") auto
  have P: "page s2 = (newPage_result w = None)"
    using extraction_run[of w launched] X by (auto simp: launched_def)
  have 1: "fst (scrape w initial) =
           (case close_result w of
              Some c \<Rightarrow> Inl c
            | None \<Rightarrow>
                if newPage_result w = None \<and> configured w then outcome (send_result w 0)
                else Inr ())"
    using P
    by (cases "close_result w")
       (simp_all add: scrape_launched(1)[OF assms(1)] run_result_def X)
  have 2: "fst (start w initial) = Inr ()
            \<and> trace (snd (start w initial)) = run_trace w @ [SetInterval 21600000]"
    if "fst (scrape w initial) = Inr ()"
    using that
    by (cases "scrape w initial")
       (simp add: start_def bind_def perform_def run_trace_def SCRAPE_INTERVAL_HOURS_def)
  show ?thesis using 1 2 by blast
qed

text \<open>Witness for C8: the navigation times out, the message is accepted.\<close>

theorem extraction_error_is_caught_witness:
  "launch_result goto_fails = None
   \<and> fst (extraction goto_fails launched)
       = Inl (TimeoutError ''Navigation timeout of 60000 ms exceeded'')
   \<and> fst (scrape goto_fails initial) = Inr ()
   \<and> fst (start goto_fails initial) = Inr ()
   \<and> trace (snd (start goto_fails initial)) = run_trace goto_fails @ [SetInterval 21600000]"
proof -
  have r: "(case close_result goto_fails of
              Some c \<Rightarrow> Inl c
            | None \<Rightarrow>
                if newPage_result goto_fails = None \<and> configured goto_fails
                then outcome (send_result goto_fails 0)
                else Inr ()) = Inr ()"
    by (simp add: goto_fails_def ok_world_def)
  show ?thesis
    using extraction_error_is_caught[OF sample_worlds_launch(2) fst_extraction_goto_fails]
      sample_worlds_launch(2) fst_extraction_goto_fails[of launched] r
    by simp
qed

text \<open>
  C8 as stated fails: when the navigation of the first run times out and the send of the
  "no results" message is rejected, the run throws the error of the send, \<open>start\<close> throws
  it too, and no timer is installed.
\<close>

theorem failed_first_run_installs_no_timer:
  "fst (extraction goto_and_send_fail launched)
     = Inl (TimeoutError ''Navigation timeout of 60000 ms exceeded'')
   \<and> fst (scrape goto_and_send_fail initial) = Inl (Error ''Unauthorized'')
   \<and> fst (start goto_and_send_fail initial) = Inl (Error ''Unauthorized'')
   \<and> trace (snd (start goto_and_send_fail initial)) =
       [Launch, NewPage, Goto URL 60000,
        Screenshot, Put ''error-screenshot.png'' [0x89, 0x50, 0x4E, 0x47] ''image/png'',
        Invoke_sendEmail [] None, Send (msg goto_and_send_fail [] None), Close]"
proof -
  have X: "extraction goto_and_send_fail launched =
     (Inl (TimeoutError ''Navigation timeout of 60000 ms exceeded''),
      \<lparr>trace = [Launch, NewPage, Goto URL 60000], page = True\<rparr>)"
    by (simp add: extraction_def bind_def perform_def assign_page_def launched_def
        goto_and_send_fail_def goto_fails_def ok_world_def)
  have c: "capture_events goto_and_send_fail =
      [Screenshot, Put ''error-screenshot.png'' [0x89, 0x50, 0x4E, 0x47] ''image/png'']"
    "close_result goto_and_send_fail = None"
    "send_result goto_and_send_fail 0 = Some (Error ''Unauthorized'')"
    by (simp_all add: capture_events_def goto_and_send_fail_def goto_fails_def ok_world_def)
  have R: "fst (scrape goto_and_send_fail initial) = Inl (Error ''Unauthorized'')"
    using sample_worlds_configured(4) c
    by (simp add: scrape_launched(1)[OF sample_worlds_launch(4)] run_result_def X)
  have T: "run_trace goto_and_send_fail =
       [Launch, NewPage, Goto URL 60000,
        Screenshot, Put ''error-screenshot.png'' [0x89, 0x50, 0x4E, 0x47] ''image/png'',
        Invoke_sendEmail [] None, Send (msg goto_and_send_fail [] None), Close]"
    using sample_worlds_configured(4) c
    by (simp add: scrape_launched(2)[OF sample_worlds_launch(4)] run_events_def X
        notify_events_def)
  have S: "start goto_and_send_fail initial = scrape goto_and_send_fail initial"
    using R by (cases "scrape goto_and_send_fail initial") (simp add: start_def bind_def)
  show ?thesis
    using R T X by (simp add: S run_trace_def)
qed

section \<open>The persisted snapshot\<close>

declare parse_chars.simps(2) [simp del]

lemma hex_value_digit: "d < 16 \<Longrightarrow> hex_value (hex_digit d) = Some d"
  by (auto simp: hex_value_def hex_digit_def)

lemma hex4_escape:
  assumes "c < 65536"
  shows "hex4 (hex_digit (c div 4096 mod 16)) (hex_digit (c div 256 mod 16))
        (hex_digit (c div 16 mod 16)) (hex_digit (c mod 16)) = Some c"
proof -
  have "c div 4096 mod 16 < 16" "c div 256 mod 16 < 16" "c div 16 mod 16 < 16" "c mod 16 < 16"
    by simp_all
  moreover have "4096 * (c div 4096 mod 16) + 256 * (c div 256 mod 16) + 16 * (c div 16 mod 16) + c mod 16 = c"
  proof -
    have a: "c mod 16 + 16 * (c div 16) = c" by simp
    have b: "c div 16 mod 16 + 16 * (c div 16 div 16) = c div 16" by simp
    have b': "c div 16 div 16 = c div 256" by (simp add: div_mult2_eq[symmetric])
    have d: "c div 256 mod 16 + 16 * (c div 256 div 16) = c div 256" by simp
    have d': "c div 256 div 16 = c div 4096" by (simp add: div_mult2_eq[symmetric])
    have e: "c div 4096 mod 16 = c div 4096" using assms by simp
    show ?thesis using a b b' d d' e by linarith
  qed
  ultimately show ?thesis
    unfolding hex4_def by (simp only: hex_value_digit prod.case option.case)
qed

lemma parse_chars_escape:
  assumes "c < 65536"
  shows "parse_chars (unicode_escape c @ r) = cons_result c (parse_chars r)"
proof -
  have "parse_chars (0x5C # 0x75 # h1 # h2 # h3 # h4 # r) =
      (case hex4 h1 h2 h3 h4 of None \<Rightarrow> None | Some u \<Rightarrow> cons_result u (parse_chars r))"
    for h1 h2 h3 h4
    by (subst parse_chars.simps(2)) simp
  then show ?thesis
    unfolding unicode_escape_def using hex4_escape[OF assms] by simp
qed

lemma parse_chars_close: "parse_chars (0x22 # cs) = Some ([], cs)"
  by (subst parse_chars.simps(2)) simp

lemma parse_chars_plain:
  "\<not> c < 0x20 \<Longrightarrow> c \<noteq> 0x22 \<Longrightarrow> c \<noteq> 0x5C \<Longrightarrow>
   parse_chars (c # cs) = cons_result c (parse_chars cs)"
  by (subst parse_chars.simps(2)) simp

lemma parse_chars_simple_escape:
  "unescape e = Some u \<Longrightarrow> e \<noteq> 0x75 \<Longrightarrow>
   parse_chars (0x5C # e # r) = cons_result u (parse_chars r)"
  by (subst parse_chars.simps(2)) simp

lemma quote_units_special:
  "quote_units (0x8 # cs) = [0x5C, 0x62] @ quote_units cs"
  "quote_units (0x9 # cs) = [0x5C, 0x74] @ quote_units cs"
  "quote_units (0xA # cs) = [0x5C, 0x6E] @ quote_units cs"
  "quote_units (0xC # cs) = [0x5C, 0x66] @ quote_units cs"
  "quote_units (0xD # cs) = [0x5C, 0x72] @ quote_units cs"
  "quote_units (0x22 # cs) = [0x5C, 0x22] @ quote_units cs"
  "quote_units (0x5C # cs) = [0x5C, 0x5C] @ quote_units cs"
  by simp_all

lemma quote_units_control:
  "\<not> is_special c \<Longrightarrow> c < 0x20 \<Longrightarrow> quote_units (c # cs) = unicode_escape c @ quote_units cs"
  by (simp add: is_special_def)

lemma quote_units_pair:
  "is_high_surrogate c \<Longrightarrow> is_low_surrogate d \<Longrightarrow>
   quote_units (c # d # ds) = c # d # quote_units ds"
  by (simp add: is_high_surrogate_def)

lemma quote_units_lone_high:
  "is_high_surrogate c \<Longrightarrow> (case cs of [] \<Rightarrow> True | d # ds \<Rightarrow> \<not> is_low_surrogate d) \<Longrightarrow>
   quote_units (c # cs) = unicode_escape c @ quote_units cs"
  by (cases cs) (simp_all add: is_high_surrogate_def)

lemma quote_units_lone_low:
  "is_low_surrogate c \<Longrightarrow> quote_units (c # cs) = unicode_escape c @ quote_units cs"
  by (simp add: is_low_surrogate_def is_high_surrogate_def)

lemma quote_units_plain:
  "\<not> is_special c \<Longrightarrow> \<not> c < 0x20 \<Longrightarrow> \<not> is_high_surrogate c \<Longrightarrow> \<not> is_low_surrogate c \<Longrightarrow>
   quote_units (c # cs) = c # quote_units cs"
  by (simp add: is_special_def)

declare quote_units.simps(2) [simp del]

lemma unescape_simps:
  "unescape 0x62 = Some 0x8" "unescape 0x74 = Some 0x9" "unescape 0x6E = Some 0xA"
  "unescape 0x66 = Some 0xC" "unescape 0x72 = Some 0xD" "unescape 0x22 = Some 0x22"
  "unescape 0x5C = Some 0x5C"
  by (simp_all add: unescape_def)

lemma parse_chars_quote:
  "parse_chars (quote_units s @ 0x22 # rest) = Some (s, rest)"
proof (induction "length s" arbitrary: s rule: less_induct)
  case less
  show ?case
  proof (cases s)
    case Nil
    then show ?thesis by (simp add: parse_chars_close)
  next
    case (Cons c cs)
    have IH: "parse_chars (quote_units cs @ 0x22 # rest) = Some (cs, rest)"
      using less[of cs] Cons by simp
    show ?thesis
    proof (cases "is_special c")
      case True
      then show ?thesis
        unfolding is_special_def using IH Cons
        by (elim disjE)
           (simp_all add: quote_units_special parse_chars_simple_escape unescape_simps)
    next
      case ns: False
      show ?thesis
      proof (cases "c < 0x20")
        case True
        then show ?thesis
          using ns IH Cons by (simp add: quote_units_control parse_chars_escape)
      next
        case big: False
        have plain: "c \<noteq> 0x22" "c \<noteq> 0x5C"
          using ns by (simp_all add: is_special_def)
        show ?thesis
        proof (cases "is_high_surrogate c")
          case hi: True
          then have c: "c < 65536" by (simp add: is_high_surrogate_def)
          show ?thesis
          proof (cases "case cs of [] \<Rightarrow> True | d # ds \<Rightarrow> \<not> is_low_surrogate d")
            case True
            then show ?thesis
              using hi c IH Cons by (simp add: quote_units_lone_high parse_chars_escape)
          next
            case False
            then obtain d ds where cs: "cs = d # ds" and lo: "is_low_surrogate d"
              by (cases cs) auto
            have IH2: "parse_chars (quote_units ds @ 0x22 # rest) = Some (ds, rest)"
              using less[of ds] Cons cs by simp
            have d: "\<not> d < 0x20" "d \<noteq> 0x22" "d \<noteq> 0x5C"
              using lo by (simp_all add: is_low_surrogate_def)
            show ?thesis
              using hi lo IH2 big plain d
              by (simp add: Cons cs quote_units_pair parse_chars_plain)
          qed
        next
          case nhi: False
          show ?thesis
          proof (cases "is_low_surrogate c")
            case True
            then have c: "c < 65536" by (simp add: is_low_surrogate_def)
            show ?thesis
              using True c IH Cons by (simp add: quote_units_lone_low parse_chars_escape)
          next
            case False
            then show ?thesis
              using ns big nhi plain IH Cons
              by (simp add: quote_units_plain parse_chars_plain)
          qed
        qed
      qed
    qed
  qed
qed

lemma skip_ws_pre:
  "list_all is_json_ws pre \<Longrightarrow> \<not> is_json_ws c \<Longrightarrow> skip_ws (pre @ c # t) = c # t"
  by (induction pre) (simp_all add: skip_ws_def)

lemma skip_ws_non_ws: "\<not> is_json_ws c \<Longrightarrow> skip_ws (c # t) = c # t"
  by (simp add: skip_ws_def)

lemma structural_not_ws:
  "\<not> is_json_ws 0x22" "\<not> is_json_ws 0x5B" "\<not> is_json_ws 0x5D" "\<not> is_json_ws 0x7B"
  "\<not> is_json_ws 0x7D" "\<not> is_json_ws 0x2C" "\<not> is_json_ws 0x3A"
  by (simp_all add: is_json_ws_def)

lemma parse_value_string:
  assumes "list_all is_json_ws pre"
  shows "parse_value (Suc n) (pre @ 0x22 # t) =
           (case parse_chars t of None \<Rightarrow> None | Some (str, r') \<Rightarrow> Some (JString str, r'))"
  by (simp add: skip_ws_pre[OF assms structural_not_ws(1)])

lemma parse_value_empty_array:
  assumes "list_all is_json_ws pre"
  shows "parse_value (Suc n) (pre @ 0x5B # 0x5D # t) = Some (JArray [], t)"
  by (simp add: skip_ws_pre[OF assms structural_not_ws(2)] skip_ws_non_ws structural_not_ws)

lemma parse_value_empty_object:
  assumes "list_all is_json_ws pre"
  shows "parse_value (Suc n) (pre @ 0x7B # 0x7D # t) = Some (JObject [], t)"
  by (simp add: skip_ws_pre[OF assms structural_not_ws(4)] skip_ws_non_ws structural_not_ws)

lemma parse_value_array:
  assumes "list_all is_json_ws pre" and "skip_ws t = d # t'" and "d \<noteq> 0x5D"
    and "parse_elements n t = Some (vs, r)"
  shows "parse_value (Suc n) (pre @ 0x5B # t) = Some (JArray vs, r)"
  using assms(2-4) by (simp add: skip_ws_pre[OF assms(1) structural_not_ws(2)])

lemma parse_value_object:
  assumes "list_all is_json_ws pre" and "skip_ws t = d # t'" and "d \<noteq> 0x7D"
    and "parse_members n t = Some (ps, r)"
  shows "parse_value (Suc n) (pre @ 0x7B # t) = Some (JObject ps, r)"
  using assms(2-4) by (simp add: skip_ws_pre[OF assms(1) structural_not_ws(4)])

lemma parse_elements_last:
  assumes "parse_value n s = Some (v, r)" and "skip_ws r = 0x5D # r'"
  shows "parse_elements (Suc n) s = Some ([v], r')"
  using assms by simp

lemma parse_elements_more:
  assumes "parse_value n s = Some (v, r)" and "skip_ws r = 0x2C # r'"
    and "parse_elements n r' = Some (vs, r'')"
  shows "parse_elements (Suc n) s = Some (v # vs, r'')"
  using assms by simp

lemma parse_members_last:
  assumes "skip_ws s = 0x22 # t" and "parse_chars t = Some (k, r1)"
    and "skip_ws r1 = 0x3A # r2" and "parse_value n r2 = Some (v, r3)"
    and "skip_ws r3 = 0x7D # r4"
  shows "parse_members (Suc n) s = Some ([(k, v)], r4)"
  using assms by simp

lemma parse_members_more:
  assumes "skip_ws s = 0x22 # t" and "parse_chars t = Some (k, r1)"
    and "skip_ws r1 = 0x3A # r2" and "parse_value n r2 = Some (v, r3)"
    and "skip_ws r3 = 0x2C # r4" and "parse_members n r4 = Some (ps, r5)"
  shows "parse_members (Suc n) s = Some ((k, v) # ps, r5)"
  using assms by simp

declare parse_value.simps(2) [simp del] parse_elements.simps(2) [simp del]
  parse_members.simps(2) [simp del]

lemma value_start_facts:
  "value_start c \<Longrightarrow> \<not> is_json_ws c" "value_start c \<Longrightarrow> c \<noteq> 0x5D" "value_start c \<Longrightarrow> c \<noteq> 0x7D"
  by (auto simp: value_start_def is_json_ws_def)

lemma serialize_start: "\<exists>c t. serialize ind v = c # t \<and> value_start c"
  by (cases v) (simp_all add: QuoteJSONString_def js_def value_start_def)

lemma join_elements_start:
  assumes "vs \<noteq> []"
  shows "\<exists>c t. join sep (serialize_elements ind vs) = c # t \<and> value_start c"
proof (cases vs)
  case Nil
  then show ?thesis using assms by simp
next
  case (Cons v ws)
  obtain c t where "serialize ind v = c # t" "value_start c"
    using serialize_start by blast
  then show ?thesis
    using Cons by (cases ws) simp_all
qed

lemma join_properties_start:
  assumes "ps \<noteq> []"
  shows "\<exists>t. join sep (serialize_properties ind ps) = 0x22 # t"
proof (cases ps)
  case Nil
  then show ?thesis using assms by simp
next
  case (Cons p qs)
  then show ?thesis
    by (cases qs) (simp_all add: QuoteJSONString_def)
qed

lemma ws_gap: "list_all is_json_ws ind \<Longrightarrow> list_all is_json_ws (ind @ gap)"
  by (simp add: gap_def js_def is_json_ws_def)

lemma ws_newline: "list_all is_json_ws ind \<Longrightarrow> list_all is_json_ws (0xA # ind)"
  by (simp add: is_json_ws_def)

lemma roundtrip:
  shows "list_all is_json_ws ind \<Longrightarrow> list_all is_json_ws pre \<Longrightarrow> fuel v \<le> n \<Longrightarrow>
         parse_value n (pre @ serialize ind v @ rest) = Some (v, rest)"
    and "list_all is_json_ws ind \<Longrightarrow> list_all is_json_ws pre \<Longrightarrow> list_all is_json_ws post \<Longrightarrow>
         vs \<noteq> [] \<Longrightarrow> fuel_elements vs \<le> n \<Longrightarrow>
         parse_elements n (pre @ join (js '','' @ [0xA] @ ind) (serialize_elements ind vs)
                             @ post @ 0x5D # rest) = Some (vs, rest)"
    and "list_all is_json_ws ind \<Longrightarrow> list_all is_json_ws pre \<Longrightarrow> list_all is_json_ws post \<Longrightarrow>
         ps \<noteq> [] \<Longrightarrow> fuel_members ps \<le> n \<Longrightarrow>
         parse_members n (pre @ join (js '','' @ [0xA] @ ind) (serialize_properties ind ps)
                            @ post @ 0x7D # rest) = Some (ps, rest)"
proof (induction ind v and ind vs and ind ps
    arbitrary: n pre rest and n pre post rest and n pre post rest
    rule: serialize_serialize_elements_serialize_properties.induct)
  case (1 ind s)
  then obtain m where n: "n = Suc m" by (cases n) auto
  show ?case
    unfolding n using 1(2)
    by (simp add: QuoteJSONString_def parse_value_string parse_chars_quote)
next
  case (2 ind vs)
  then obtain m where n: "n = Suc m" by (cases n) auto
  show ?case
  proof (cases "vs = []")
    case True
    then show ?thesis
      unfolding n using 2(3) by (simp add: js_def parse_value_empty_array)
  next
    case False
    obtain c t where st: "join (js '','' @ [0xA] @ (ind @ gap)) (serialize_elements (ind @ gap) vs) = c # t"
      "value_start c"
      using join_elements_start[OF False] by blast
    have m: "fuel_elements vs \<le> m" using 2(4) n by simp
    have E: "parse_elements m ((0xA # ind @ gap)
               @ join (js '','' @ [0xA] @ (ind @ gap)) (serialize_elements (ind @ gap) vs)
               @ (0xA # ind) @ 0x5D # rest) = Some (vs, rest)"
      by (rule 2(1)[OF False ws_gap[OF 2(2)] ws_newline[OF ws_gap[OF 2(2)]] ws_newline[OF 2(2)]
            False m])
    have S: "skip_ws ((0xA # ind @ gap)
               @ join (js '','' @ [0xA] @ (ind @ gap)) (serialize_elements (ind @ gap) vs)
               @ (0xA # ind) @ 0x5D # rest) = c # t @ (0xA # ind) @ 0x5D # rest"
      unfolding st(1)
      using skip_ws_pre[OF ws_newline[OF ws_gap[OF 2(2)]] value_start_facts(1)[OF st(2)]]
      by simp
    have "parse_value (Suc m) (pre @ 0x5B # (0xA # ind @ gap)
               @ join (js '','' @ [0xA] @ (ind @ gap)) (serialize_elements (ind @ gap) vs)
               @ (0xA # ind) @ 0x5D # rest) = Some (JArray vs, rest)"
      by (rule parse_value_array[OF 2(3) S value_start_facts(2)[OF st(2)] E])
    then show ?thesis
      unfolding n using False by (simp add: js_def)
  qed
next
  case (3 ind ps)
  then obtain m where n: "n = Suc m" by (cases n) auto
  show ?case
  proof (cases "ps = []")
    case True
    then show ?thesis
      unfolding n using 3(3) by (simp add: js_def parse_value_empty_object)
  next
    case False
    obtain t where st: "join (js '','' @ [0xA] @ (ind @ gap)) (serialize_properties (ind @ gap) ps) = 0x22 # t"
      using join_properties_start[OF False] by blast
    have m: "fuel_members ps \<le> m" using 3(4) n by simp
    have E: "parse_members m ((0xA # ind @ gap)
               @ join (js '','' @ [0xA] @ (ind @ gap)) (serialize_properties (ind @ gap) ps)
               @ (0xA # ind) @ 0x7D # rest) = Some (ps, rest)"
      by (rule 3(1)[OF False ws_gap[OF 3(2)] ws_newline[OF ws_gap[OF 3(2)]] ws_newline[OF 3(2)]
            False m])
    have S: "skip_ws ((0xA # ind @ gap)
               @ join (js '','' @ [0xA] @ (ind @ gap)) (serialize_properties (ind @ gap) ps)
               @ (0xA # ind) @ 0x7D # rest) = 0x22 # t @ (0xA # ind) @ 0x7D # rest"
      unfolding st
      using skip_ws_pre[OF ws_newline[OF ws_gap[OF 3(2)]] structural_not_ws(1)]
      by simp
    have "parse_value (Suc m) (pre @ 0x7B # (0xA # ind @ gap)
               @ join (js '','' @ [0xA] @ (ind @ gap)) (serialize_properties (ind @ gap) ps)
               @ (0xA # ind) @ 0x7D # rest) = Some (JObject ps, rest)"
      by (rule parse_value_object[OF 3(3) S _ E]) simp
    then show ?thesis
      unfolding n using False by (simp add: js_def)
  qed
next
  case (4 ind)
  then show ?case by simp
next
  case (5 ind v vs)
  then obtain m where n: "n = Suc m" by (cases n) auto
  have fv: "fuel v \<le> m" and fvs: "fuel_elements vs \<le> m" using 5(7) n by simp_all
  show ?case
  proof (cases vs)
    case Nil
    have V: "parse_value m (pre @ serialize ind v @ (post @ 0x5D # rest))
               = Some (v, post @ 0x5D # rest)"
      by (rule 5(1)[OF 5(3,4) fv])
    have "parse_elements (Suc m) (pre @ serialize ind v @ (post @ 0x5D # rest)) = Some ([v], rest)"
      by (rule parse_elements_last[OF V skip_ws_pre[OF 5(5) structural_not_ws(3)]])
    then show ?thesis unfolding n using Nil by simp
  next
    case (Cons y ys)
    let ?sep = "js '','' @ [0xA] @ ind"
    let ?tail = "join ?sep (serialize_elements ind vs) @ post @ 0x5D # rest"
    have V: "parse_value m (pre @ serialize ind v @ (0x2C # (0xA # ind) @ ?tail))
               = Some (v, 0x2C # (0xA # ind) @ ?tail)"
      by (rule 5(1)[OF 5(3,4) fv])
    have E: "parse_elements m ((0xA # ind) @ ?tail) = Some (vs, rest)"
      using 5(2)[OF 5(3) ws_newline[OF 5(3)] 5(5) _ fvs] Cons by simp
    have "parse_elements (Suc m) (pre @ serialize ind v @ (0x2C # (0xA # ind) @ ?tail))
            = Some (v # vs, rest)"
      by (rule parse_elements_more[OF V skip_ws_non_ws[OF structural_not_ws(6)] E])
    then show ?thesis unfolding n using Cons by (simp add: js_def)
  qed
next
  case (6 ind)
  then show ?case by simp
next
  case (7 ind p ps)
  then obtain m where n: "n = Suc m" by (cases n) auto
  obtain k v where p: "p = (k, v)" by (cases p)
  have fv: "fuel v \<le> m" and fps: "fuel_members ps \<le> m" using 7(7) n p by simp_all
  have K: "skip_ws (pre @ 0x22 # quote_units k @ 0x22 # X) = 0x22 # quote_units k @ 0x22 # X" for X
    by (rule skip_ws_pre[OF 7(4) structural_not_ws(1)])
  have C: "parse_chars (quote_units k @ 0x22 # X) = Some (k, X)" for X
    by (rule parse_chars_quote)
  have IH1: "parse_value m ([0x20] @ serialize ind v @ X) = Some (v, X)" for X
    using 7(1)[of "[0x20]" m X] 7(3) fv p by (simp add: is_json_ws_def)
  show ?case
  proof (cases ps)
    case Nil
    have V: "parse_value m ([0x20] @ serialize ind v @ (post @ 0x7D # rest))
               = Some (v, post @ 0x7D # rest)"
      by (rule IH1)
    have "parse_members (Suc m)
            (pre @ 0x22 # quote_units k @ 0x22 # 0x3A # [0x20] @ serialize ind v @ (post @ 0x7D # rest))
          = Some ([(k, v)], rest)"
      by (rule parse_members_last[OF K C skip_ws_non_ws[OF structural_not_ws(7)] V
            skip_ws_pre[OF 7(5) structural_not_ws(5)]])
    then show ?thesis unfolding n using Nil p by (simp add: js_def QuoteJSONString_def)
  next
    case (Cons q qs)
    let ?sep = "js '','' @ [0xA] @ ind"
    let ?tail = "join ?sep (serialize_properties ind ps) @ post @ 0x7D # rest"
    have V: "parse_value m ([0x20] @ serialize ind v @ (0x2C # (0xA # ind) @ ?tail))
               = Some (v, 0x2C # (0xA # ind) @ ?tail)"
      by (rule IH1)
    have E: "parse_members m ((0xA # ind) @ ?tail) = Some (ps, rest)"
      using 7(2)[OF 7(3) ws_newline[OF 7(3)] 7(5) _ fps] Cons by simp
    have "parse_members (Suc m)
            (pre @ 0x22 # quote_units k @ 0x22 # 0x3A # [0x20] @ serialize ind v
               @ (0x2C # (0xA # ind) @ ?tail))
          = Some ((k, v) # ps, rest)"
      by (rule parse_members_more[OF K C skip_ws_non_ws[OF structural_not_ws(7)] V
            skip_ws_non_ws[OF structural_not_ws(6)] E])
    then show ?thesis unfolding n using Cons p by (simp add: js_def QuoteJSONString_def)
  qed
qed

lemma join_Cons: "join sep (x # xs) = (if xs = [] then x else x @ sep @ join sep xs)"
  by (cases xs) simp_all

lemma serialize_elements_Nil [simp]: "(serialize_elements ind vs = []) = (vs = [])"
  by (cases vs) simp_all

lemma serialize_properties_Nil [simp]: "(serialize_properties ind ps = []) = (ps = [])"
  by (cases ps) simp_all

lemma fuel_bound:
  shows "fuel v \<le> length (serialize ind v)"
    and "\<forall>sep. sep \<noteq> [] \<longrightarrow> fuel_elements vs \<le> length (join sep (serialize_elements ind vs)) + 1"
    and "\<forall>sep. sep \<noteq> [] \<longrightarrow> fuel_members ps \<le> length (join sep (serialize_properties ind ps)) + 1"
proof (induction ind v and ind vs and ind ps
    rule: serialize_serialize_elements_serialize_properties.induct)
  case (1 ind s)
  show ?case by (simp add: QuoteJSONString_def)
next
  case (2 ind vs)
  show ?case
  proof (cases "vs = []")
    case True
    then show ?thesis by (simp add: js_def)
  next
    case False
    have "fuel_elements vs \<le> length (join (js '','' @ [0xA] @ (ind @ gap)) (serialize_elements (ind @ gap) vs)) + 1"
      using 2[OF False] by (simp add: js_def)
    then show ?thesis using False by (simp add: js_def)
  qed
next
  case (3 ind ps)
  show ?case
  proof (cases "ps = []")
    case True
    then show ?thesis by (simp add: js_def)
  next
    case False
    have "fuel_members ps \<le> length (join (js '','' @ [0xA] @ (ind @ gap)) (serialize_properties (ind @ gap) ps)) + 1"
      using 3[OF False] by (simp add: js_def)
    then show ?thesis using False by (simp add: js_def)
  qed
next
  case (4 ind)
  show ?case by simp
next
  case (5 ind v vs)
  show ?case
  proof (intro allI impI)
    fix sep :: jsstring
    assume sep: "sep \<noteq> []"
    then have l: "1 \<le> length sep" by (cases sep) simp_all
    have "fuel_elements vs \<le> length (join sep (serialize_elements ind vs)) + 1"
      using 5(2) sep by blast
    then show "fuel_elements (v # vs) \<le> length (join sep (serialize_elements ind (v # vs))) + 1"
      using 5(1) l by (simp add: join_Cons)
  qed
next
  case (6 ind)
  show ?case by simp
next
  case (7 ind p ps)
  show ?case
  proof (intro allI impI)
    fix sep :: jsstring
    assume sep: "sep \<noteq> []"
    then have l: "1 \<le> length sep" by (cases sep) simp_all
    have "fuel_members ps \<le> length (join sep (serialize_properties ind ps)) + 1"
      using 7(2) sep by blast
    then show "fuel_members (p # ps) \<le> length (join sep (serialize_properties ind (p # ps))) + 1"
      using 7(1) l by (simp add: join_Cons)
  qed
qed

lemma JSON_parse_stringify: "JSON_parse (stringify v) = Some v"
proof -
  have "parse_value (length (serialize [] v)) ([] @ serialize [] v @ []) = Some (v, [])"
    by (rule roundtrip(1)) (simp_all add: fuel_bound(1))
  then show ?thesis
    by (simp add: JSON_parse_def stringify_def skip_ws_def)
qed

lemma is_digit_mod: "is_digit (48 + n mod 10)"
proof -
  have "n mod 10 < 10" by simp
  then show ?thesis unfolding is_digit_def by linarith
qed

lemma matches_pad:
  "matches (replicate k (CHR ''D'') @ ps) (pad k n @ cs) = matches ps cs"
proof (induction k arbitrary: n ps cs)
  case 0
  show ?case by simp
next
  case (Suc k)
  have "matches (replicate (Suc k) (CHR ''D'') @ ps) (pad (Suc k) n @ cs) =
        matches (replicate k (CHR ''D'') @ (CHR ''D'' # ps)) (pad k (n div 10) @ ((48 + n mod 10) # cs))"
    by (simp add: replicate_app_Cons_same)
  also have "\<dots> = matches (CHR ''D'' # ps) ((48 + n mod 10) # cs)"
    by (rule Suc)
  also have "\<dots> = matches ps cs"
    by (simp add: is_digit_mod)
  finally show ?case .
qed

lemma matches_literal:
  "matches (CHR ''-'' # ps) (js ''-'' @ cs) = matches ps cs"
  "matches (CHR ''T'' # ps) (js ''T'' @ cs) = matches ps cs"
  "matches (CHR '':'' # ps) (js '':'' @ cs) = matches ps cs"
  "matches (CHR ''.'' # ps) (js ''.'' @ cs) = matches ps cs"
  "matches (CHR ''+'' # ps) (js ''+'' @ cs) = matches ps cs"
  "matches ''Z'' (js ''Z'') = True"
  by (simp_all add: js_def)

lemma ISO_format_basic:
  "matches ''DDDD-DD-DDTDD:DD:DD.DDDZ''
     (pad 4 y @ js ''-'' @ pad 2 m @ js ''-'' @ pad 2 d
      @ js ''T'' @ pad 2 h @ js '':'' @ pad 2 mi @ js '':'' @ pad 2 s
      @ js ''.'' @ pad 3 ms @ js ''Z'')"
proof -
  have p: "''DDDD-DD-DDTDD:DD:DD.DDDZ'' =
      replicate 4 (CHR ''D'') @ CHR ''-'' # replicate 2 (CHR ''D'') @ CHR ''-'' #
      replicate 2 (CHR ''D'') @ CHR ''T'' # replicate 2 (CHR ''D'') @ CHR '':'' #
      replicate 2 (CHR ''D'') @ CHR '':'' # replicate 2 (CHR ''D'') @ CHR ''.'' #
      replicate 3 (CHR ''D'') @ ''Z''"
    by (simp add: numeral_eq_Suc)
  show ?thesis
    unfolding p by (simp only: matches_pad matches_literal)
qed

lemma ISO_format_expanded:
  "matches ''+DDDDDD-DD-DDTDD:DD:DD.DDDZ''
     ((js ''+'' @ pad 6 y) @ js ''-'' @ pad 2 m @ js ''-'' @ pad 2 d
      @ js ''T'' @ pad 2 h @ js '':'' @ pad 2 mi @ js '':'' @ pad 2 s
      @ js ''.'' @ pad 3 ms @ js ''Z'')"
proof -
  have p: "''+DDDDDD-DD-DDTDD:DD:DD.DDDZ'' =
      CHR ''+'' # replicate 6 (CHR ''D'') @ CHR ''-'' # replicate 2 (CHR ''D'') @ CHR ''-'' #
      replicate 2 (CHR ''D'') @ CHR ''T'' # replicate 2 (CHR ''D'') @ CHR '':'' #
      replicate 2 (CHR ''D'') @ CHR '':'' # replicate 2 (CHR ''D'') @ CHR ''.'' #
      replicate 3 (CHR ''D'') @ ''Z''"
    by (simp add: numeral_eq_Suc)
  show ?thesis
    unfolding p by (simp only: matches_pad matches_literal append_assoc)
qed

lemma is_ISO_8601_format: "is_ISO_8601 (ISO_format y m d h mi s ms)"
proof (cases "y \<le> 9999")
  case True
  then show ?thesis
    unfolding is_ISO_8601_def ISO_format_def
    by (simp only: if_True ISO_format_basic simp_thms)
next
  case False
  then show ?thesis
    unfolding is_ISO_8601_def ISO_format_def
    by (simp only: if_False ISO_format_expanded simp_thms)
qed

lemma is_ISO_8601_toISOString: "is_ISO_8601 (toISOString t)"
  unfolding toISOString_def by (rule is_ISO_8601_format)

text \<open>
  The calendar: the year found by the search is the year of the standard, the largest
  one that starts at or before the time, and the day of the year, the month and the
  date give back the day number.
\<close>

lemma leap_terms: "((y::nat) - 1901) div 100 \<le> (y - 1969) div 4"
proof (cases "y < 2001")
  case True
  then show ?thesis by simp
next
  case False
  define q where "q = (y - 1969) div 4"
  have "y - 1969 < 4 + 4 * q"
    unfolding q_def by (rule dividend_less_times_div) simp
  moreover have "8 \<le> q"
  proof -
    have "32 div 4 \<le> (y - 1969) div 4"
      by (rule div_le_mono) (use False in simp)
    then show ?thesis unfolding q_def by simp
  qed
  ultimately have "y - 1901 < q * 100" using False by linarith
  then have "(y - 1901) div 100 < q" by (rule less_mult_imp_div_less)
  then show ?thesis unfolding q_def by simp
qed

lemma DayFromYear_lower: "365 * (y - 1970) \<le> DayFromYear y"
proof -
  define A where "A = (y - 1969) div 4"
  define B where "B = (y - 1901) div 100"
  define C where "C = (y - 1601) div 400"
  define Y where "Y = 365 * (y - 1970)"
  have "B \<le> A" unfolding A_def B_def by (rule leap_terms)
  then have "Y \<le> Y + A - B + C" by linarith
  then show ?thesis unfolding DayFromYear_def A_def B_def C_def Y_def .
qed

lemma div_pred:
  "0 < (n::nat) \<Longrightarrow> n div k = (n - 1) div k + (if n mod k = 0 then 1 else 0)"
  by (cases n) (simp_all add: div_Suc)

lemma mod_shift: "k * q \<le> (y::nat) \<Longrightarrow> (y - k * q) mod k = y mod k"
  by (metis le_add_diff_inverse mod_mult_self4)

lemma DayFromYear_Suc:
  assumes "1970 \<le> y"
  shows "DayFromYear (Suc y) = DayFromYear y + DaysInYear y"
proof -
  have m4: "(y - 1968) mod 4 = y mod 4"
    using mod_shift[of 4 492 y] assms by simp
  have m100: "(y - 1900) mod 100 = y mod 100"
    using mod_shift[of 100 19 y] assms by simp
  have m400: "(y - 1600) mod 400 = y mod 400"
    using mod_shift[of 400 4 y] assms by simp
  have d4: "(y - 1968) div 4 = (y - 1969) div 4 + (if y mod 4 = 0 then 1 else 0)"
    using div_pred[of "y - 1968" 4] assms m4 by simp
  have d100: "(y - 1900) div 100 = (y - 1901) div 100 + (if y mod 100 = 0 then 1 else 0)"
    using div_pred[of "y - 1900" 100] assms m100 by simp
  have d400: "(y - 1600) div 400 = (y - 1601) div 400 + (if y mod 400 = 0 then 1 else 0)"
    using div_pred[of "y - 1600" 400] assms m400 by simp
  have i1: "y mod 400 = 0 \<Longrightarrow> y mod 100 = 0"
  proof -
    assume "y mod 400 = 0"
    then have "400 dvd y" by (simp add: mod_eq_0_iff_dvd)
    moreover have "(100::nat) dvd 400" by simp
    ultimately have "100 dvd y" using dvd_trans by blast
    then show ?thesis by (simp add: mod_eq_0_iff_dvd)
  qed
  have i2: "y mod 100 = 0 \<Longrightarrow> y mod 4 = 0"
  proof -
    assume "y mod 100 = 0"
    then have "100 dvd y" by (simp add: mod_eq_0_iff_dvd)
    moreover have "(4::nat) dvd 100" by simp
    ultimately have "4 dvd y" using dvd_trans by blast
    then show ?thesis by (simp add: mod_eq_0_iff_dvd)
  qed
  have s: "Suc y - 1970 = Suc (y - 1970)" "Suc y - 1969 = y - 1968" "Suc y - 1901 = y - 1900"
    "Suc y - 1601 = y - 1600"
    using assms by simp_all
  define A where "A = (y - 1969) div 4"
  define B where "B = (y - 1901) div 100"
  define C where "C = (y - 1601) div 400"
  define Y where "Y = y - 1970"
  define e4 :: nat where "e4 = (if y mod 4 = 0 then 1 else 0)"
  define e100 :: nat where "e100 = (if y mod 100 = 0 then 1 else 0)"
  define e400 :: nat where "e400 = (if y mod 400 = 0 then 1 else 0)"
  have L: "DayFromYear (Suc y) = 365 * Suc Y + (A + e4) - (B + e100) + (C + e400)"
    unfolding DayFromYear_def s d4 d100 d400 A_def B_def C_def Y_def e4_def e100_def e400_def
    by (rule refl)
  have R: "DayFromYear y = 365 * Y + A - B + C"
    unfolding DayFromYear_def A_def B_def C_def Y_def by (rule refl)
  have BA: "B \<le> A" unfolding A_def B_def by (rule leap_terms)
  have E: "e100 \<le> e4" "e400 \<le> e100" "e4 \<le> 1"
    using i1 i2 unfolding e4_def e100_def e400_def by (auto split: if_splits)
  have D: "DaysInYear y = 365 + e4 - e100 + e400"
    using i1 i2 unfolding DaysInYear_def e4_def e100_def e400_def by (auto split: if_splits)
  have M: "365 * Suc Y = 365 * Y + 365" by simp
  show ?thesis
    unfolding L R D M using BA E by linarith
qed

lemma latest_year_bounds:
  "1970 \<le> y \<Longrightarrow> 1970 \<le> latest_year t y \<and> latest_year t y \<le> y"
proof (induction t y rule: latest_year.induct)
  case (1 t y)
  show ?case
  proof (cases "TimeFromYear y \<le> t \<or> y \<le> 1970")
    case True
    then have "latest_year t y = y" by (subst latest_year.simps) simp
    then show ?thesis using 1(2) by simp
  next
    case False
    from False have "\<not> y \<le> 1970" by blast
    then have a: "1970 \<le> y - 1" by linarith
    have "latest_year t y = latest_year t (y - 1)"
      using False by (subst latest_year.simps) simp
    moreover have "y - 1 \<le> y" by simp
    ultimately show ?thesis using 1(1)[OF False a] by linarith
  qed
qed

lemma TimeFromYear_1970: "TimeFromYear 1970 = 0"
  by (simp add: TimeFromYear_def DayFromYear_def)

lemma latest_year_le: "1970 \<le> y \<Longrightarrow> TimeFromYear (latest_year t y) \<le> t"
proof (induction t y rule: latest_year.induct)
  case (1 t y)
  show ?case
  proof (cases "TimeFromYear y \<le> t \<or> y \<le> 1970")
    case True
    then have "latest_year t y = y" by (subst latest_year.simps) simp
    moreover have "TimeFromYear y \<le> t"
      using True 1(2) TimeFromYear_1970 by (cases "y = 1970") auto
    ultimately show ?thesis by simp
  next
    case False
    from False have "\<not> y \<le> 1970" by blast
    then have "1970 \<le> y - 1" by linarith
    from 1(1)[OF False this] show ?thesis
      using False by (subst latest_year.simps) simp
  qed
qed

lemma latest_year_less:
  "1970 \<le> y \<Longrightarrow> t < TimeFromYear (Suc y) \<Longrightarrow> t < TimeFromYear (Suc (latest_year t y))"
proof (induction t y rule: latest_year.induct)
  case (1 t y)
  show ?case
  proof (cases "TimeFromYear y \<le> t \<or> y \<le> 1970")
    case True
    then have "latest_year t y = y" by (subst latest_year.simps) simp
    then show ?thesis using 1(3) by simp
  next
    case False
    from False have n: "\<not> y \<le> 1970" "\<not> TimeFromYear y \<le> t" by blast+
    have a: "1970 \<le> y - 1" using n(1) by linarith
    have "Suc (y - 1) = y" using n(1) by linarith
    then have b: "t < TimeFromYear (Suc (y - 1))" using n(2) by simp
    from 1(1)[OF False a b] show ?thesis
      using False by (subst latest_year.simps) simp
  qed
qed

lemma year_start:
  "t < TimeFromYear (Suc (1970 + Day t div 365))"
proof -
  define k where "k = Day t div 365"
  have "Day t < 365 * (k + 1)"
    unfolding k_def using dividend_less_times_div[of 365 "Day t"] by simp
  moreover have "365 * (Suc (1970 + k) - 1970) \<le> DayFromYear (Suc (1970 + k))"
    by (rule DayFromYear_lower)
  ultimately have "Day t < DayFromYear (Suc (1970 + k))" by simp
  then have "Suc (Day t) \<le> DayFromYear (Suc (1970 + k))" by simp
  then have "msPerDay * Suc (Day t) \<le> msPerDay * DayFromYear (Suc (1970 + k))"
    by (rule mult_le_mono2)
  moreover have "t < msPerDay * Suc (Day t)"
    unfolding Day_def msPerDay_def
    using dividend_less_times_div[of 86400000 t] by simp
  ultimately show ?thesis unfolding TimeFromYear_def k_def by linarith
qed

lemma YearFromTime_bounds:
  "1970 \<le> YearFromTime t" "YearFromTime t \<le> 1970 + Day t div 365"
  "TimeFromYear (YearFromTime t) \<le> t" "t < TimeFromYear (Suc (YearFromTime t))"
  unfolding YearFromTime_def
  using latest_year_bounds[of "1970 + Day t div 365" t] latest_year_le[of "1970 + Day t div 365" t]
    latest_year_less[OF _ year_start[of t]]
  by simp_all

lemma DayWithinYear_bounds:
  "DayFromYear (YearFromTime t) + DayWithinYear t = Day t"
  "DayWithinYear t < 365 + InLeapYear t"
proof -
  have a: "msPerDay * DayFromYear (YearFromTime t) \<le> t"
    using YearFromTime_bounds(3)[of t] by (simp add: TimeFromYear_def)
  have "DayFromYear (YearFromTime t) \<le> t div msPerDay"
    using a by (simp add: msPerDay_def less_eq_div_iff_mult_less_eq mult.commute)
  then have le: "DayFromYear (YearFromTime t) \<le> Day t" by (simp add: Day_def)
  then show "DayFromYear (YearFromTime t) + DayWithinYear t = Day t"
    by (simp add: DayWithinYear_def)
  have b: "t < msPerDay * DayFromYear (Suc (YearFromTime t))"
    using YearFromTime_bounds(4)[of t] by (simp add: TimeFromYear_def)
  have "t div msPerDay < DayFromYear (Suc (YearFromTime t))"
    using b by (simp add: msPerDay_def div_less_iff_less_mult mult.commute)
  then have "Day t < DayFromYear (YearFromTime t) + DaysInYear (YearFromTime t)"
    using DayFromYear_Suc[OF YearFromTime_bounds(1)[of t]] by (simp add: Day_def)
  moreover have "DaysInYear (YearFromTime t) = 365 + InLeapYear t"
    by (simp add: InLeapYear_def DaysInYear_def)
  ultimately show "DayWithinYear t < 365 + InLeapYear t"
    using le by (simp add: DayWithinYear_def)
qed

lemma InLeapYear_le: "InLeapYear t \<le> 1"
  by (simp add: InLeapYear_def)

lemma month_table:
  fixes d l :: nat
  assumes h: "d < 365 + l" "l \<le> 1"
  defines "mm \<equiv>
      (if d < 31 then 0 else if d < 59 + l then 1 else if d < 90 + l then 2
       else if d < 120 + l then 3 else if d < 151 + l then 4 else if d < 181 + l then 5
       else if d < 212 + l then 6 else if d < 243 + l then 7 else if d < 273 + l then 8
       else if d < 304 + l then 9 else if d < 334 + l then 10 else (11::nat))"
  defines "dd \<equiv>
      (if mm = 0 then d + 1
       else if mm = 1 then d - 30
       else if mm = 2 then d - 58 - l
       else if mm = 3 then d - 89 - l
       else if mm = 4 then d - 119 - l
       else if mm = 5 then d - 150 - l
       else if mm = 6 then d - 180 - l
       else if mm = 7 then d - 211 - l
       else if mm = 8 then d - 242 - l
       else if mm = 9 then d - 272 - l
       else if mm = 10 then d - 303 - l
       else d - 333 - l)"
  shows "mm \<le> 11 \<and> 1 \<le> dd \<and> dd \<le> 31 \<and>
         [0, 31, 59, 90, 120, 151, 181, 212, 243, 273, 304, 334] ! mm
           + (if 2 \<le> mm then l else 0) + dd - 1 = d"
proof -
  note m = mm_def
  note dt = dd_def
  show ?thesis
  proof (cases "d < 31")
    case c0: True
    have mv: "mm = 0" unfolding m using c0 by simp
    have dv: "dd = d + 1" unfolding dt mv by simp
    show ?thesis unfolding mv dv using c0 h by auto
  next
    case n0: False
    show ?thesis
    proof (cases "d < 59 + l")
      case c1: True
      have mv: "mm = 1" unfolding m using n0 c1 by simp
      have dv: "dd = d - 30" unfolding dt mv by simp
      show ?thesis unfolding mv dv using n0 c1 h by auto
    next
      case n1: False
      show ?thesis
      proof (cases "d < 90 + l")
        case c2: True
        have mv: "mm = 2" unfolding m using n0 n1 c2 by simp
        have dv: "dd = d - 58 - l" unfolding dt mv by simp
        show ?thesis unfolding mv dv using n0 n1 c2 h by auto
      next
        case n2: False
        show ?thesis
        proof (cases "d < 120 + l")
          case c3: True
          have mv: "mm = 3" unfolding m using n0 n1 n2 c3 by simp
          have dv: "dd = d - 89 - l" unfolding dt mv by simp
          show ?thesis unfolding mv dv using n0 n1 n2 c3 h by auto
        next
          case n3: False
          show ?thesis
          proof (cases "d < 151 + l")
            case c4: True
            have mv: "mm = 4" unfolding m using n0 n1 n2 n3 c4 by simp
            have dv: "dd = d - 119 - l" unfolding dt mv by simp
            show ?thesis unfolding mv dv using n0 n1 n2 n3 c4 h by auto
          next
            case n4: False
            show ?thesis
            proof (cases "d < 181 + l")
              case c5: True
              have mv: "mm = 5" unfolding m using n0 n1 n2 n3 n4 c5 by simp
              have dv: "dd = d - 150 - l" unfolding dt mv by simp
              show ?thesis unfolding mv dv using n0 n1 n2 n3 n4 c5 h by auto
            next
              case n5: False
              show ?thesis
              proof (cases "d < 212 + l")
                case c6: True
                have mv: "mm = 6" unfolding m using n0 n1 n2 n3 n4 n5 c6 by simp
                have dv: "dd = d - 180 - l" unfolding dt mv by simp
                show ?thesis unfolding mv dv using n0 n1 n2 n3 n4 n5 c6 h by auto
              next
                case n6: False
                show ?thesis
                proof (cases "d < 243 + l")
                  case c7: True
                  have mv: "mm = 7" unfolding m using n0 n1 n2 n3 n4 n5 n6 c7 by simp
                  have dv: "dd = d - 211 - l" unfolding dt mv by simp
                  show ?thesis unfolding mv dv using n0 n1 n2 n3 n4 n5 n6 c7 h by auto
                next
                  case n7: False
                  show ?thesis
                  proof (cases "d < 273 + l")
                    case c8: True
                    have mv: "mm = 8" unfolding m using n0 n1 n2 n3 n4 n5 n6 n7 c8 by simp
                    have dv: "dd = d - 242 - l" unfolding dt mv by simp
                    show ?thesis unfolding mv dv using n0 n1 n2 n3 n4 n5 n6 n7 c8 h by auto
                  next
                    case n8: False
                    show ?thesis
                    proof (cases "d < 304 + l")
                      case c9: True
                      have mv: "mm = 9" unfolding m using n0 n1 n2 n3 n4 n5 n6 n7 n8 c9 by simp
                      have dv: "dd = d - 272 - l" unfolding dt mv by simp
                      show ?thesis unfolding mv dv using n0 n1 n2 n3 n4 n5 n6 n7 n8 c9 h by auto
                    next
                      case n9: False
                      show ?thesis
                      proof (cases "d < 334 + l")
                        case c10: True
                        have mv: "mm = 10" unfolding m using n0 n1 n2 n3 n4 n5 n6 n7 n8 n9 c10 by simp
                        have dv: "dd = d - 303 - l" unfolding dt mv by simp
                        show ?thesis unfolding mv dv using n0 n1 n2 n3 n4 n5 n6 n7 n8 n9 c10 h by auto
                      next
                        case n10: False
                        have mv: "mm = 11" unfolding m using n0 n1 n2 n3 n4 n5 n6 n7 n8 n9 n10 by simp
                        have dv: "dd = d - 333 - l" unfolding dt mv by simp
                        show ?thesis unfolding mv dv using n0 n1 n2 n3 n4 n5 n6 n7 n8 n9 n10 h by auto
                      qed
                    qed
                  qed
                qed
              qed
            qed
          qed
        qed
      qed
    qed
  qed
qed

lemma month_date:
  "MonthFromTime t \<le> 11 \<and> 1 \<le> DateFromTime t \<and> DateFromTime t \<le> 31 \<and>
   DayFromMonth (MonthFromTime t) (InLeapYear t) + DateFromTime t - 1 = DayWithinYear t"
  using month_table[OF DayWithinYear_bounds(2)[of t] InLeapYear_le[of t]]
  unfolding MonthFromTime_def DateFromTime_def DayFromMonth_def Let_def .

lemma time_within_day:
  "t = Day t * msPerDay + MakeTime (HourFromTime t) (MinFromTime t) (SecFromTime t) (msFromTime t)"
proof -
  define a where "a = t div 1000"
  define b where "b = a div 60"
  define c where "c = b div 60"
  have t: "t = a * 1000 + t mod 1000" unfolding a_def by simp
  have a: "a = b * 60 + a mod 60" unfolding b_def by simp
  have b: "b = c * 60 + b mod 60" unfolding c_def by simp
  have c: "c = c div 24 * 24 + c mod 24" by simp
  have "t div 60000 = t div (1000 * 60)" by simp
  also have "\<dots> = b" unfolding b_def a_def by (rule div_mult2_eq)
  finally have m: "t div 60000 = b" .
  have "t div 3600000 = t div (60000 * 60)" by simp
  also have "\<dots> = c" unfolding c_def m[symmetric] by (rule div_mult2_eq)
  finally have h: "t div 3600000 = c" .
  have "t div 86400000 = t div (3600000 * 24)" by simp
  also have "\<dots> = c div 24" unfolding h[symmetric] by (rule div_mult2_eq)
  finally have d: "t div 86400000 = c div 24" .
  show ?thesis
    unfolding Day_def msPerDay_def MakeTime_def HourFromTime_def MinFromTime_def SecFromTime_def
      msFromTime_def m h d a_def[symmetric]
    using t a b c by linarith
qed

lemma time_bounds:
  "HourFromTime t \<le> 23" "MinFromTime t \<le> 59" "SecFromTime t \<le> 59" "msFromTime t \<le> 999"
proof -
  have "x mod 24 \<le> 23" "x mod 60 \<le> 59" "x mod 1000 \<le> 999" for x :: nat
    using mod_less_divisor[of 24 x] mod_less_divisor[of 60 x] mod_less_divisor[of 1000 x]
    by linarith+
  then show "HourFromTime t \<le> 23" "MinFromTime t \<le> 59" "SecFromTime t \<le> 59"
    "msFromTime t \<le> 999"
    unfolding HourFromTime_def MinFromTime_def SecFromTime_def msFromTime_def by blast+
qed

lemma MakeDate_inverse:
  "MakeDate (MakeDay (YearFromTime t) (MonthFromTime t) (DateFromTime t))
     (MakeTime (HourFromTime t) (MinFromTime t) (SecFromTime t) (msFromTime t)) = t"
proof -
  have l: "(if DaysInYear (YearFromTime t) = 366 then 1 else 0) = InLeapYear t"
    by (simp add: InLeapYear_def)
  have "MakeDay (YearFromTime t) (MonthFromTime t) (DateFromTime t) =
        DayFromYear (YearFromTime t) + DayWithinYear t"
    unfolding MakeDay_def l using month_date[of t] by linarith
  also have "\<dots> = Day t"
    by (rule DayWithinYear_bounds(1))
  finally show ?thesis
    unfolding MakeDate_def using time_within_day[of t] by simp
qed

lemma DayFromYear_early: "y \<le> 1970 \<Longrightarrow> DayFromYear y = 0"
  by (simp add: DayFromYear_def)

lemma DayFromYear_step: "DayFromYear y \<le> DayFromYear (Suc y)"
proof (cases "1970 \<le> y")
  case True
  then show ?thesis by (simp add: DayFromYear_Suc)
next
  case False
  then show ?thesis by (simp add: DayFromYear_early)
qed

lemma DayFromYear_mono: "a \<le> b \<Longrightarrow> DayFromYear a \<le> DayFromYear b"
  by (rule lift_Suc_mono_le[of DayFromYear, OF DayFromYear_step])

lemma YearFromTime_largest:
  assumes "TimeFromYear y \<le> t"
  shows "y \<le> YearFromTime t"
proof (rule ccontr)
  assume "\<not> y \<le> YearFromTime t"
  then have "Suc (YearFromTime t) \<le> y" by simp
  then have "DayFromYear (Suc (YearFromTime t)) \<le> DayFromYear y" by (rule DayFromYear_mono)
  then have "TimeFromYear (Suc (YearFromTime t)) \<le> TimeFromYear y"
    by (simp add: TimeFromYear_def)
  then show False using assms YearFromTime_bounds(4)[of t] by linarith
qed

lemma pad_numeral:
  "pad 2 n = [48 + n div 10 mod 10, 48 + n mod 10]"
  "pad 3 n = [48 + n div 10 div 10 mod 10, 48 + n div 10 mod 10, 48 + n mod 10]"
  "pad 4 n = [48 + n div 10 div 10 div 10 mod 10, 48 + n div 10 div 10 mod 10,
              48 + n div 10 mod 10, 48 + n mod 10]"
proof -
  have n: "(2::nat) = Suc (Suc 0)" "(3::nat) = Suc (Suc (Suc 0))"
    "(4::nat) = Suc (Suc (Suc (Suc 0)))"
    by simp_all
  show "pad 2 n = [48 + n div 10 mod 10, 48 + n mod 10]"
    by (subst n(1)) simp
  show "pad 3 n = [48 + n div 10 div 10 mod 10, 48 + n div 10 mod 10, 48 + n mod 10]"
    by (subst n(2)) simp
  show "pad 4 n = [48 + n div 10 div 10 div 10 mod 10, 48 + n div 10 div 10 mod 10,
              48 + n div 10 mod 10, 48 + n mod 10]"
    by (subst n(3)) simp
qed

text \<open>Reading the timestamp back: \<open>new Date(s)\<close> of the string that \<open>toISOString\<close> printed.\<close>

lemma length_pad [simp]: "length (pad k n) = k"
  by (induction k arbitrary: n) simp_all

lemma number_snoc: "number (s @ [c]) = 10 * number s + (c - 48)"
  by (simp add: number_def)

lemma number_pad: "number (pad k n) = n mod 10 ^ k"
proof (induction k arbitrary: n)
  case 0
  show ?case by (simp add: number_def)
next
  case (Suc k)
  have "n mod (10 * 10 ^ k) = 10 * (n div 10 mod 10 ^ k) + n mod 10"
    by (rule mod_mult2_eq)
  then show ?case
    by (simp add: number_snoc Suc)
qed

lemma number_pad_small: "n < 10 ^ k \<Longrightarrow> number (pad k n) = n"
  by (simp add: number_pad)

lemma date_time_format:
  assumes "m < 100" "d < 100" "h < 100" "mi < 100" "s < 100" "ms < 1000"
  shows "date_time y (js ''-'' @ pad 2 m @ js ''-'' @ pad 2 d
      @ js ''T'' @ pad 2 h @ js '':'' @ pad 2 mi @ js '':'' @ pad 2 s
      @ js ''.'' @ pad 3 ms @ js ''Z'') =
     (if 1970 \<le> y \<and> 1 \<le> m \<and> m \<le> 12 \<and> 1 \<le> d \<and> d \<le> 31
            \<and> (h \<le> 23 \<or> h = 24 \<and> mi = 0 \<and> s = 0 \<and> ms = 0) \<and> mi \<le> 59 \<and> s \<le> 59
         then TimeClip (MakeDate (MakeDay y (m - 1) d) (MakeTime h mi s ms))
         else None)"
proof -
  let ?r = "js ''-'' @ pad 2 m @ js ''-'' @ pad 2 d
      @ js ''T'' @ pad 2 h @ js '':'' @ pad 2 mi @ js '':'' @ pad 2 s
      @ js ''.'' @ pad 3 ms @ js ''Z''"
  have f: "digits_at 1 2 ?r = m" "digits_at 4 2 ?r = d" "digits_at 7 2 ?r = h" "digits_at 10 2 ?r = mi"
    "digits_at 13 2 ?r = s" "digits_at 16 3 ?r = ms"
    using assms by (simp_all add: digits_at_def js_def number_pad_small)
  show ?thesis
    unfolding date_time_def f Let_def by (rule refl)
qed

lemma YearFromTime_six_digits:
  assumes "t \<le> 8640000000000000"
  shows "YearFromTime t < 1000000"
proof -
  have "t div 86400000 \<le> 8640000000000000 div 86400000"
    by (rule div_le_mono[OF assms])
  then have "Day t \<le> 100000000" by (simp add: Day_def msPerDay_def)
  then have "Day t div 365 \<le> 100000000 div 365" by (rule div_le_mono)
  then have "Day t div 365 \<le> 273972" by simp
  then show ?thesis using YearFromTime_bounds(2)[of t] by linarith
qed

lemma Date_parse_format:
  assumes "1970 \<le> y" "y < 1000000" "1 \<le> m" "m \<le> 12" "1 \<le> d" "d \<le> 31" "h \<le> 23"
    "mi \<le> 59" "s \<le> 59" "ms \<le> 999"
  shows "Date_parse (ISO_format y m d h mi s ms) =
           TimeClip (MakeDate (MakeDay y (m - 1) d) (MakeTime h mi s ms))"
proof -
  let ?r = "js ''-'' @ pad 2 m @ js ''-'' @ pad 2 d
      @ js ''T'' @ pad 2 h @ js '':'' @ pad 2 mi @ js '':'' @ pad 2 s
      @ js ''.'' @ pad 3 ms @ js ''Z''"
  have r: "date_time y ?r = TimeClip (MakeDate (MakeDay y (m - 1) d) (MakeTime h mi s ms))"
    using assms by (subst date_time_format) simp_all
  show ?thesis
  proof (cases "y \<le> 9999")
    case True
    have f: "ISO_format y m d h mi s ms = pad 4 y @ ?r"
      using True by (simp add: ISO_format_def)
    have a: "digits_at 0 4 (pad 4 y @ ?r) = y" and b: "drop 4 (pad 4 y @ ?r) = ?r"
      using True by (simp_all add: digits_at_def number_pad_small)
    note m1 = ISO_format_basic[of y m d h mi s ms]
    show ?thesis
      unfolding Date_parse_def f by (simp only: m1 a b r if_True)
  next
    case False
    have f: "ISO_format y m d h mi s ms = (js ''+'' @ pad 6 y) @ ?r"
      using False by (simp add: ISO_format_def)
    have n: "\<not> matches ''DDDD-DD-DDTDD:DD:DD.DDDZ'' ((js ''+'' @ pad 6 y) @ ?r)"
      by (simp add: js_def is_digit_def)
    have a: "digits_at 1 6 ((js ''+'' @ pad 6 y) @ ?r) = y"
      and b: "drop 7 ((js ''+'' @ pad 6 y) @ ?r) = ?r"
      using assms(2) by (simp_all add: digits_at_def number_pad_small js_def)
    note m1 = ISO_format_expanded[of y m d h mi s ms]
    show ?thesis
      unfolding Date_parse_def f by (simp only: n m1 a b r if_True if_False)
  qed
qed

lemma Date_parse_toISOString:
  assumes "t \<le> 8640000000000000"
  shows "Date_parse (toISOString t) = Some t"
proof -
  have "Date_parse (toISOString t) =
      TimeClip (MakeDate (MakeDay (YearFromTime t) (MonthFromTime t + 1 - 1) (DateFromTime t))
        (MakeTime (HourFromTime t) (MinFromTime t) (SecFromTime t) (msFromTime t)))"
    unfolding toISOString_def
    using YearFromTime_bounds(1)[of t] YearFromTime_six_digits[OF assms] month_date[of t]
      time_bounds[of t]
    by (intro Date_parse_format) simp_all
  also have "\<dots> = TimeClip t"
    by (simp add: MakeDate_inverse)
  also have "\<dots> = Some t"
    using assms by (simp add: TimeClip_def)
  finally show ?thesis .
qed

lemma toISOString_sample: "toISOString 1740830400000 = js ''2025-03-01T12:00:00.000Z''"
proof -
  have y: "YearFromTime 1740830400000 = 2025"
    by (simp add: YearFromTime_def Day_def msPerDay_def latest_year.simps TimeFromYear_def
        DayFromYear_def)
  have d: "DayWithinYear 1740830400000 = 59" "InLeapYear 1740830400000 = 0"
    by (simp_all add: DayWithinYear_def InLeapYear_def y Day_def msPerDay_def DayFromYear_def
        DaysInYear_def)
  have m: "MonthFromTime 1740830400000 = 2"
    by (simp add: MonthFromTime_def d)
  have dt: "DateFromTime 1740830400000 = 1"
    by (simp add: DateFromTime_def d m)
  show ?thesis
    by (simp add: toISOString_def ISO_format_def y m dt HourFromTime_def MinFromTime_def
        SecFromTime_def msFromTime_def js_def pad_numeral)
qed


lemma registration_of_json: "registration_of (registration_json r) = Some r"
  by (simp add: registration_of_def registration_json_def property_def js_def)

lemma those_registrations:
  "those (map (registration_of \<circ> registration_json) rs) = Some rs"
  by (induction rs) (simp_all add: registration_of_json)

lemma snapshot_of_RegistrationData: "snapshot_of (RegistrationData t rs) = Some (t, rs)"
  by (simp add: snapshot_of_def RegistrationData_def property_def js_def those_registrations)

lemma load_stringify: "load (stringify (RegistrationData t rs)) = Some (t, rs)"
  by (simp add: load_def JSON_parse_stringify snapshot_of_RegistrationData)

declare utf8_decode.simps(2) [simp del]

lemma utf8_decode_1:
  assumes "v < 0x80"
  shows "utf8_decode (encode_scalar v @ bs) = append_result [v] (utf8_decode bs)"
  using assms by (simp add: encode_scalar_def utf8_decode.simps(2))

lemma utf8_decode_2:
  assumes "0x80 \<le> v" "v < 0x800"
  shows "utf8_decode (encode_scalar v @ bs) = append_result [v] (utf8_decode bs)"
proof -
  have d: "2 \<le> v div 64" "v div 64 < 32" using assms by simp_all
  have m: "v mod 64 < 64" by simp
  have e: "v div 64 * 64 + v mod 64 = v" by simp
  have b: "\<not> 0xC0 + v div 64 < 0x80" "0xC2 \<le> 0xC0 + v div 64" "0xC0 + v div 64 \<le> 0xDF"
    using d by simp_all
  have c: "is_continuation (0x80 + v mod 64)"
    using m by (simp add: is_continuation_def)
  have "utf8_decode ((0xC0 + v div 64) # (0x80 + v mod 64) # bs) =
        append_result [(0xC0 + v div 64 - 0xC0) * 64 + (0x80 + v mod 64 - 0x80)] (utf8_decode bs)"
    by (subst utf8_decode.simps(2)) (simp only: b c if_True if_False list.case simp_thms)
  then show ?thesis
    using assms e by (simp add: encode_scalar_def)
qed

lemma utf8_decode_3:
  assumes "0x800 \<le> v" "v < 0x10000" "\<not> (0xD800 \<le> v \<and> v \<le> 0xDFFF)"
  shows "utf8_decode (encode_scalar v @ bs) = append_result [v] (utf8_decode bs)"
proof -
  let ?b = "0xE0 + v div 4096" and ?b1 = "0x80 + v div 64 mod 64" and ?b2 = "0x80 + v mod 64"
  have d: "v div 4096 < 16" using assms by simp
  have e1: "v mod 64 + 64 * (v div 64) = v" by simp
  have e2: "v div 64 mod 64 + 64 * (v div 64 div 64) = v div 64" by simp
  have e3: "v div 64 div 64 = v div 4096" by (simp add: div_mult2_eq[symmetric])
  have e': "v div 4096 * 4096 + v div 64 mod 64 * 64 + v mod 64 = v"
    using e1 e2 e3 by linarith
  have e: "(?b - 0xE0) * 4096 + (?b1 - 0x80) * 64 + (?b2 - 0x80) = v"
    using e' by simp
  have b: "\<not> ?b < 0x80" "\<not> (0xC2 \<le> ?b \<and> ?b \<le> 0xDF)" "0xE0 \<le> ?b" "?b \<le> 0xEF"
    using d by simp_all
  have c: "is_continuation ?b1" "is_continuation ?b2"
    by (simp_all add: is_continuation_def)
  have "utf8_decode (?b # ?b1 # ?b2 # bs) = append_result [v] (utf8_decode bs)"
    by (subst utf8_decode.simps(2))
       (simp only: b c e assms if_True if_False list.case simp_thms)
  then show ?thesis
    using assms by (simp add: encode_scalar_def)
qed

lemma utf8_decode_4:
  assumes "0x10000 \<le> v" "v \<le> 0x10FFFF"
  shows "utf8_decode (encode_scalar v @ bs) = append_result (code_units v) (utf8_decode bs)"
proof -
  let ?b = "0xF0 + v div 262144" and ?b1 = "0x80 + v div 4096 mod 64"
    and ?b2 = "0x80 + v div 64 mod 64" and ?b3 = "0x80 + v mod 64"
  have d: "v div 262144 < 5" using assms by simp
  have e1: "v mod 64 + 64 * (v div 64) = v" by simp
  have e2: "v div 64 mod 64 + 64 * (v div 64 div 64) = v div 64" by simp
  have e3: "v div 64 div 64 = v div 4096" by (simp add: div_mult2_eq[symmetric])
  have e4: "v div 4096 mod 64 + 64 * (v div 4096 div 64) = v div 4096" by simp
  have e5: "v div 4096 div 64 = v div 262144" by (simp add: div_mult2_eq[symmetric])
  have e': "v div 262144 * 262144 + v div 4096 mod 64 * 4096 + v div 64 mod 64 * 64
            + v mod 64 = v"
    using e1 e2 e3 e4 e5 by linarith
  have e: "(?b - 0xF0) * 262144 + (?b1 - 0x80) * 4096 + (?b2 - 0x80) * 64 + (?b3 - 0x80) = v"
    using e' by simp
  have b: "\<not> ?b < 0x80" "\<not> (0xC2 \<le> ?b \<and> ?b \<le> 0xDF)" "\<not> (0xE0 \<le> ?b \<and> ?b \<le> 0xEF)"
    "0xF0 \<le> ?b" "?b \<le> 0xF4"
    using d by simp_all
  have c: "is_continuation ?b1" "is_continuation ?b2" "is_continuation ?b3"
    by (simp_all add: is_continuation_def)
  have "utf8_decode (?b # ?b1 # ?b2 # ?b3 # bs) = append_result (code_units v) (utf8_decode bs)"
    by (subst utf8_decode.simps(2))
       (simp only: b c e assms if_True if_False list.case simp_thms)
  then show ?thesis
    using assms by (simp add: encode_scalar_def)
qed

lemma code_units_pair:
  assumes "is_high_surrogate c" "is_low_surrogate d"
  shows "code_units (0x10000 + (c - 0xD800) * 0x400 + (d - 0xDC00)) = [c, d]"
    and "0x10000 \<le> 0x10000 + (c - 0xD800) * 0x400 + (d - 0xDC00)"
    and "0x10000 + (c - 0xD800) * 0x400 + (d - 0xDC00) \<le> 0x10FFFF"
proof -
  have l: "d - 0xDC00 < 0x400" "0xDC00 \<le> d" "0xD800 \<le> c" "c - 0xD800 < 0x400"
    using assms unfolding is_high_surrogate_def is_low_surrogate_def by linarith+
  have "((c - 0xD800) * 0x400 + (d - 0xDC00)) div 0x400 = c - 0xD800"
    using l(1) by simp
  moreover have "((c - 0xD800) * 0x400 + (d - 0xDC00)) mod 0x400 = d - 0xDC00"
    using l(1) by simp
  ultimately show "code_units (0x10000 + (c - 0xD800) * 0x400 + (d - 0xDC00)) = [c, d]"
    using l by (simp add: code_units_def)
  show "0x10000 \<le> 0x10000 + (c - 0xD800) * 0x400 + (d - 0xDC00)" by simp
  show "0x10000 + (c - 0xD800) * 0x400 + (d - 0xDC00) \<le> 0x10FFFF"
    using l by simp
qed

lemma utf8_encode_plain:
  "\<not> is_high_surrogate c \<Longrightarrow> \<not> is_low_surrogate c \<Longrightarrow>
   utf8_encode (c # cs) = encode_scalar c @ utf8_encode cs"
  by (simp add: utf8_encode_def)

lemma utf8_encode_pair:
  "is_high_surrogate c \<Longrightarrow> is_low_surrogate d \<Longrightarrow>
   utf8_encode (c # d # ds) =
     encode_scalar (0x10000 + (c - 0xD800) * 0x400 + (d - 0xDC00)) @ utf8_encode ds"
  by (simp add: utf8_encode_def)

lemma utf8_decode_scalar:
  assumes "v < 0x10000" "\<not> is_high_surrogate v" "\<not> is_low_surrogate v"
  shows "utf8_decode (encode_scalar v @ bs) = append_result [v] (utf8_decode bs)"
proof -
  consider "v < 0x80" | "0x80 \<le> v" "v < 0x800" | "0x800 \<le> v" by linarith
  then show ?thesis
  proof cases
    case 1
    then show ?thesis by (rule utf8_decode_1)
  next
    case 2
    then show ?thesis by (rule utf8_decode_2)
  next
    case 3
    have "\<not> (0xD800 \<le> v \<and> v \<le> 0xDFFF)"
      using assms(2,3) unfolding is_high_surrogate_def is_low_surrogate_def by linarith
    then show ?thesis using 3 assms(1) by (intro utf8_decode_3)
  qed
qed

lemma utf8_round_trip: "well_formed s \<Longrightarrow> utf8_decode (utf8_encode s) = Some s"
proof (induction "length s" arbitrary: s rule: less_induct)
  case less
  show ?case
  proof (cases s)
    case Nil
    then show ?thesis by (simp add: utf8_encode_def)
  next
    case (Cons c cs)
    show ?thesis
    proof (cases "is_high_surrogate c")
      case True
      then obtain d ds where cs: "cs = d # ds" and d: "is_low_surrogate d" and w: "well_formed ds"
        using less(2) Cons by (cases cs) auto
      have IH: "utf8_decode (utf8_encode ds) = Some ds"
        using less(1)[of ds] w Cons cs by simp
      show ?thesis
        unfolding Cons cs utf8_encode_pair[OF True d]
        using utf8_decode_4[OF code_units_pair(2,3)[OF True d]] code_units_pair(1)[OF True d] IH
        by simp
    next
      case False
      then have c: "\<not> is_low_surrogate c" "c < 0x10000" and w: "well_formed cs"
        using less(2) Cons by simp_all
      have IH: "utf8_decode (utf8_encode cs) = Some cs"
        using less(1)[of cs] w Cons by simp
      show ?thesis
        unfolding Cons utf8_encode_plain[OF False c(1)]
        using utf8_decode_scalar[OF c(2) False c(1)] IH by simp
    qed
  qed
qed

declare scalar_values.simps(2) [simp del]

lemma well_formed_append:
  "well_formed a \<Longrightarrow> well_formed b \<Longrightarrow> well_formed (a @ b)"
proof (induction a rule: well_formed.induct)
  case 1
  then show ?case by simp
next
  case (2 c cs)
  show ?case
  proof (cases "is_high_surrogate c")
    case True
    then obtain d ds where cs: "cs = d # ds" and d: "is_low_surrogate d" and w: "well_formed ds"
      using 2(3) by (cases cs) auto
    have "well_formed (ds @ b)" using 2(1)[OF True cs w 2(4)] .
    then show ?thesis using True cs d by simp
  next
    case False
    then have "well_formed (cs @ b)" using 2 by simp
    then show ?thesis using False 2(3) by simp
  qed
qed

lemma well_formed_ascii: "list_all (\<lambda>c. c < 0x80) s \<Longrightarrow> well_formed s"
  by (induction s) (simp_all add: is_high_surrogate_def is_low_surrogate_def)

lemma hex_digit_ascii: "d < 16 \<Longrightarrow> hex_digit d < 0x80"
  by (simp add: hex_digit_def)

lemma well_formed_unicode_escape: "well_formed (unicode_escape c)"
  by (rule well_formed_ascii) (simp add: unicode_escape_def hex_digit_ascii)

lemma well_formed_Cons_ascii: "a < 0x80 \<Longrightarrow> well_formed (a # xs) = well_formed xs"
  by (simp add: is_high_surrogate_def is_low_surrogate_def)

lemma well_formed_quote_units: "valid_string s \<Longrightarrow> well_formed (quote_units s)"
proof (induction "length s" arbitrary: s rule: less_induct)
  case less
  show ?case
  proof (cases s)
    case Nil
    then show ?thesis by simp
  next
    case (Cons c cs)
    have v: "c < 0x10000" "valid_string cs"
      using less(2) Cons by (simp_all add: valid_string_def)
    have IH: "well_formed (quote_units cs)"
      using less(1)[of cs] v(2) Cons by simp
    show ?thesis
    proof (cases "is_special c")
      case True
      then show ?thesis
        unfolding is_special_def Cons using IH
        by (elim disjE)
           (simp_all add: quote_units_special well_formed_Cons_ascii del: well_formed.simps)
    next
      case ns: False
      show ?thesis
      proof (cases "c < 0x20")
        case True
        then show ?thesis
          using ns IH Cons
          by (simp add: quote_units_control well_formed_append well_formed_unicode_escape)
      next
        case big: False
        show ?thesis
        proof (cases "is_high_surrogate c")
          case hi: True
          show ?thesis
          proof (cases "case cs of [] \<Rightarrow> True | d # ds \<Rightarrow> \<not> is_low_surrogate d")
            case True
            then show ?thesis
              using hi IH Cons
              by (simp add: quote_units_lone_high well_formed_append well_formed_unicode_escape)
          next
            case False
            then obtain d ds where cs: "cs = d # ds" and lo: "is_low_surrogate d"
              by (cases cs) auto
            have "valid_string ds" using v(2) cs by (simp add: valid_string_def)
            then have IH2: "well_formed (quote_units ds)"
              using less(1)[of ds] Cons cs by simp
            show ?thesis
              using hi lo IH2 by (simp add: Cons cs quote_units_pair)
          qed
        next
          case nhi: False
          show ?thesis
          proof (cases "is_low_surrogate c")
            case True
            then show ?thesis
              using IH Cons
              by (simp add: quote_units_lone_low well_formed_append well_formed_unicode_escape)
          next
            case False
            then show ?thesis
              using ns big nhi IH v(1) Cons by (simp add: quote_units_plain)
          qed
        qed
      qed
    qed
  qed
qed

lemma well_formed_QuoteJSONString: "valid_string s \<Longrightarrow> well_formed (QuoteJSONString s)"
  unfolding QuoteJSONString_def
  by (intro well_formed_append well_formed_quote_units well_formed_ascii) simp_all

lemma well_formed_ws: "list_all is_json_ws ind \<Longrightarrow> well_formed ind"
  by (rule well_formed_ascii) (induction ind, simp_all add: is_json_ws_def, auto)

lemma well_formed_join:
  "well_formed sep \<Longrightarrow> list_all well_formed xs \<Longrightarrow> well_formed (join sep xs)"
  by (induction sep xs rule: join.induct)
     (simp_all add: well_formed_append del: well_formed.simps(2))

lemma well_formed_serialize:
  shows "valid_json v \<Longrightarrow> list_all is_json_ws ind \<Longrightarrow> well_formed (serialize ind v)"
    and "valid_elements vs \<Longrightarrow> list_all is_json_ws ind \<Longrightarrow>
         list_all well_formed (serialize_elements ind vs)"
    and "valid_members ps \<Longrightarrow> list_all is_json_ws ind \<Longrightarrow>
         list_all well_formed (serialize_properties ind ps)"
proof (induction ind v and ind vs and ind ps
    rule: serialize_serialize_elements_serialize_properties.induct)
  case (1 ind s)
  then show ?case by (simp add: well_formed_QuoteJSONString del: well_formed.simps)
next
  case (2 ind vs)
  show ?case
  proof (cases "vs = []")
    case True
    then show ?thesis by (simp add: js_def is_high_surrogate_def is_low_surrogate_def)
  next
    case False
    have g: "list_all is_json_ws (ind @ gap)" by (rule ws_gap[OF 2(3)])
    have e: "list_all well_formed (serialize_elements (ind @ gap) vs)"
      using 2(1)[OF False _ g] 2(2) by simp
    have sep: "well_formed (js '','' @ [0xA] @ (ind @ gap))"
      by (intro well_formed_append well_formed_ws[OF g] well_formed_ascii) (simp_all add: js_def)
    have "well_formed (js ''['' @ [0xA] @ (ind @ gap)
           @ join (js '','' @ [0xA] @ (ind @ gap)) (serialize_elements (ind @ gap) vs)
           @ [0xA] @ ind @ js '']'')"
      by (intro well_formed_append well_formed_join[OF sep e] well_formed_ws[OF g]
            well_formed_ws[OF 2(3)] well_formed_ascii) (simp_all add: js_def)
    then show ?thesis using False by (simp del: well_formed.simps)
  qed
next
  case (3 ind ps)
  show ?case
  proof (cases "ps = []")
    case True
    then show ?thesis by (simp add: js_def is_high_surrogate_def is_low_surrogate_def)
  next
    case False
    have g: "list_all is_json_ws (ind @ gap)" by (rule ws_gap[OF 3(3)])
    have e: "list_all well_formed (serialize_properties (ind @ gap) ps)"
      using 3(1)[OF False _ g] 3(2) by simp
    have sep: "well_formed (js '','' @ [0xA] @ (ind @ gap))"
      by (intro well_formed_append well_formed_ws[OF g] well_formed_ascii) (simp_all add: js_def)
    have "well_formed (js ''{'' @ [0xA] @ (ind @ gap)
           @ join (js '','' @ [0xA] @ (ind @ gap)) (serialize_properties (ind @ gap) ps)
           @ [0xA] @ ind @ js ''}'')"
      by (intro well_formed_append well_formed_join[OF sep e] well_formed_ws[OF g]
            well_formed_ws[OF 3(3)] well_formed_ascii) (simp_all add: js_def)
    then show ?thesis using False by (simp del: well_formed.simps)
  qed
next
  case (4 ind)
  show ?case by simp
next
  case (5 ind v vs)
  then show ?case by (simp del: well_formed.simps)
next
  case (6 ind)
  show ?case by simp
next
  case (7 ind p ps)
  have a: "well_formed (QuoteJSONString (fst p))"
    using 7(3) by (simp add: well_formed_QuoteJSONString)
  have b: "well_formed (js '': '')"
    by (rule well_formed_ascii) (simp add: js_def)
  have c: "well_formed (serialize ind (snd p))"
    using 7(1,3,4) by simp
  have "well_formed (QuoteJSONString (fst p) @ js '': '' @ serialize ind (snd p))"
    by (rule well_formed_append[OF a well_formed_append[OF b c]])
  then show ?case using 7 by (simp del: well_formed.simps)
qed

lemma valid_pad: "valid_string (pad k n)"
proof (induction k n rule: pad.induct)
  case (1 n)
  show ?case by (simp add: valid_string_def)
next
  case (2 k n)
  have "n mod 10 < 10" by simp
  then have "48 + n mod 10 < 0x10000" by linarith
  then show ?case using 2 by (simp add: valid_string_def)
qed

lemma valid_string_append: "valid_string (a @ b) = (valid_string a \<and> valid_string b)"
  by (simp add: valid_string_def)

lemma valid_toISOString: "valid_string (toISOString t)"
proof -
  have l: "valid_string (js ''+'')" "valid_string (js ''-'')" "valid_string (js ''T'')"
    "valid_string (js '':'')" "valid_string (js ''.'')" "valid_string (js ''Z'')"
    by (simp_all add: valid_string_def js_def)
  show ?thesis
    unfolding toISOString_def ISO_format_def
    by (simp only: valid_string_append valid_pad l if_split simp_thms)
qed

lemma valid_registration_json: "valid_registration r \<Longrightarrow> valid_json (registration_json r)"
  by (simp add: valid_registration_def registration_json_def)
     (simp add: valid_string_def js_def)

lemma valid_registrations:
  "list_all valid_registration rs \<Longrightarrow> valid_elements (map registration_json rs)"
  by (induction rs) (simp_all add: valid_registration_json)

lemma valid_RegistrationData:
  "valid_string t \<Longrightarrow> list_all valid_registration rs \<Longrightarrow> valid_json (RegistrationData t rs)"
  by (simp add: RegistrationData_def valid_registrations) (simp add: valid_string_def js_def)

lemma response_text_stringify:
  assumes "valid_json v"
  shows "response_text (utf8_encode (stringify v)) = Some (stringify v)"
proof -
  have w: "well_formed (stringify v)"
    unfolding stringify_def by (rule well_formed_serialize(1)[OF assms]) simp
  obtain c t where h: "stringify v = c # t" "value_start c"
    unfolding stringify_def using serialize_start by blast
  have "c \<noteq> 0xFEFF" using h(2) by (auto simp: value_start_def)
  then show ?thesis
    using utf8_round_trip[OF w] h(1) by (simp add: response_text_def)
qed

lemma read_snapshot_saved:
  assumes "list_all valid_registration rs"
  shows "read_snapshot (utf8_encode (stringify (RegistrationData (toISOString t) rs))) =
           Some (toISOString t, rs)"
  using response_text_stringify[OF valid_RegistrationData[OF valid_toISOString assms]]
  by (simp add: read_snapshot_def load_stringify)


text \<open>
  C10.  For every list of registrations, \<open>saveData\<close> makes one upload, under the fixed
  name \<open>basketball-registrations.json\<close>, of the text of
  \<open>JSON.stringify({ timestamp, registrations }, null, 2)\<close>: an object whose \<open>timestamp\<close> is
  the ISO 8601 rendering of the clock reading taken in the call and whose
  \<open>registrations\<close> is the array of the given registrations, one object of five string
  fields each, in the given order.  The timestamp denotes the clock reading and no
  other instant: read back as a date, it is that time value.  Parsing the uploaded
  text gives back that object, and reading the snapshot from it gives back the
  timestamp and the given registrations unchanged.  When the fields of the
  registrations are strings of code units, the same holds for the stored bytes:
  decoding them gives back the uploaded text, and reading the snapshot from them the
  timestamp and the registrations.  \<open>saveData\<close> itself completes as the upload does.
\<close>

theorem saveData_round_trip:
  "trace (snd (saveData w registrations s)) =
     trace s @
     [Invoke_saveData registrations,
      Put ''basketball-registrations.json''
        (stringify (RegistrationData (toISOString (Date_now w)) registrations))
        ''application/json'']
   \<and> fst (saveData w registrations s) = put_result w ''basketball-registrations.json''
   \<and> RegistrationData (toISOString (Date_now w)) registrations =
       JObject [(js ''timestamp'', JString (toISOString (Date_now w))),
                (js ''registrations'', JArray (map registration_json registrations))]
   \<and> is_ISO_8601 (toISOString (Date_now w))
   \<and> (Date_now w \<le> 8640000000000000 \<longrightarrow>
        Date_parse (toISOString (Date_now w)) = Some (Date_now w))
   \<and> JSON_parse (stringify (RegistrationData (toISOString (Date_now w)) registrations)) =
       Some (RegistrationData (toISOString (Date_now w)) registrations)
   \<and> load (stringify (RegistrationData (toISOString (Date_now w)) registrations)) =
       Some (toISOString (Date_now w), registrations)
   \<and> (list_all valid_registration registrations \<longrightarrow>
        response_text
          (utf8_encode (stringify (RegistrationData (toISOString (Date_now w)) registrations))) =
        Some (stringify (RegistrationData (toISOString (Date_now w)) registrations))
        \<and> read_snapshot
            (utf8_encode (stringify (RegistrationData (toISOString (Date_now w)) registrations))) =
          Some (toISOString (Date_now w), registrations))"
proof -
  have 1: "trace (snd (saveData w registrations s)) =
     trace s @
     [Invoke_saveData registrations,
      Put ''basketball-registrations.json''
        (stringify (RegistrationData (toISOString (Date_now w)) registrations))
        ''application/json'']"
    and 2: "fst (saveData w registrations s) = put_result w ''basketball-registrations.json''"
    by (simp_all add: saveData_eq save_events_def BLOB_FILENAME_def)
  have 3: "response_text
          (utf8_encode (stringify (RegistrationData (toISOString (Date_now w)) registrations))) =
        Some (stringify (RegistrationData (toISOString (Date_now w)) registrations))"
    if "list_all valid_registration registrations"
    by (rule response_text_stringify[OF valid_RegistrationData[OF valid_toISOString that]])
  have 4: "RegistrationData (toISOString (Date_now w)) registrations =
       JObject [(js ''timestamp'', JString (toISOString (Date_now w))),
                (js ''registrations'', JArray (map registration_json registrations))]"
    by (simp add: RegistrationData_def)
  show ?thesis
    using 1 2 3 4 is_ISO_8601_toISOString[of "Date_now w"]
      Date_parse_toISOString[of "Date_now w"]
      JSON_parse_stringify[of "RegistrationData (toISOString (Date_now w)) registrations"]
      load_stringify[of "toISOString (Date_now w)" registrations]
      read_snapshot_saved[of registrations "Date_now w"]
    by blast
qed

text \<open>
  Witness for C10: a registration with an accented letter, quotes, a surrogate pair, a
  TAB and an unpaired surrogate, saved at noon of the first of March 2025.
\<close>

theorem saveData_round_trip_witness:
  "list_all valid_registration [sample_registration]
   \<and> Date_now ok_world \<le> 8640000000000000
   \<and> toISOString (Date_now ok_world) = js ''2025-03-01T12:00:00.000Z''
   \<and> Date_parse (js ''2025-03-01T12:00:00.000Z'') = Some 1740830400000
   \<and> response_text
       (utf8_encode
          (stringify (RegistrationData (toISOString (Date_now ok_world)) [sample_registration]))) =
     Some (stringify (RegistrationData (toISOString (Date_now ok_world)) [sample_registration]))
   \<and> read_snapshot
       (utf8_encode
          (stringify (RegistrationData (toISOString (Date_now ok_world)) [sample_registration]))) =
     Some (toISOString (Date_now ok_world), [sample_registration])"
proof -
  have v: "list_all valid_registration [sample_registration]"
    by (simp add: valid_registration_def sample_registration_def valid_string_def js_def)
  have n: "Date_now ok_world = 1740830400000"
    by (simp add: ok_world_def)
  have r: "Date_now ok_world \<le> 8640000000000000"
    unfolding n by simp
  have t: "toISOString (Date_now ok_world) = js ''2025-03-01T12:00:00.000Z''"
    unfolding n by (rule toISOString_sample)
  note T = saveData_round_trip[of ok_world "[sample_registration]" initial]
  from T r have "Date_parse (toISOString (Date_now ok_world)) = Some (Date_now ok_world)"
    by blast
  then have p: "Date_parse (js ''2025-03-01T12:00:00.000Z'') = Some 1740830400000"
    by (simp add: n toISOString_sample)
  show ?thesis
    using T v r t p by blast
qed

end
